theory Spec2Isabelle
  imports Complex_Main
begin

text \<open>
  A shallow embedding of the rule engine of the preset cache analyzer: the five rules
  (\<open>rules/macro-placement.js\<close>, \<open>rules/prompt-ordering.js\<close>, \<open>rules/token-thresholds.js\<close>,
  \<open>rules/injection-depth.js\<close>, \<open>rules/provider-specific.js\<close>) and the aggregator
  (\<open>analyzer.js\<close>), followed by the properties the specification states about them.
\<close>

section \<open>Strings, numbers and the dynamic-macro pattern\<close>

text \<open>
  A JavaScript string is modelled as a \<^typ>\<open>string\<close>, one \<^typ>\<open>char\<close> per code unit.
  An optional property (\<open>undefined\<close> when absent) is an \<^typ>\<open>'a option\<close>.
  The object literals used as dictionaries (\<open>promptMap\<close>, \<open>THRESHOLDS\<close>) are modelled with
  their prototype chain: a key that is no own property resolves to what
  \<open>Object.prototype\<close> holds for it. Token counts are
  integers, as the tokenizer's contract says; the two quotients that the rules compare
  with 0.4 and 0.9 are modelled as exact reals (the notes at \<open>placement_severity\<close> and
  \<open>thresholds_severity\<close> say why the doubles agree).
\<close>

definition dquote :: string where
  "dquote = [CHR 0x22]"

definition newline :: string where
  "newline = [CHR 0x0A]"

text \<open>The two message texts with characters outside ASCII carry them as UTF-8 bytes.\<close>

definition em_dash :: string where
  "em_dash = [CHR 0xE2, CHR 0x80, CHR 0x94]"

definition squash_dash :: string where
  "squash_dash = [CHR 0xC3, CHR 0xA2, CHR 0xE2, CHR 0x82, CHR 0xAC, CHR 0xE2, CHR 0x80, CHR 0x9D]"

text \<open>Truthiness of an optional string: \<open>undefined\<close> and \<open>''\<close> are falsy.\<close>

definition truthy :: "string option \<Rightarrow> bool" where
  "truthy c = (case c of None \<Rightarrow> False | Some s \<Rightarrow> s \<noteq> [])"

text \<open>The string held by an optional string that is truthy.\<close>

definition str_of :: "string option \<Rightarrow> string" where
  "str_of c = (case c of None \<Rightarrow> [] | Some s \<Rightarrow> s)"

text \<open>\<open>a || b\<close> on an optional string with a string fallback.\<close>

definition or_else :: "string option \<Rightarrow> string \<Rightarrow> string" where
  "or_else a b = (case a of None \<Rightarrow> b | Some s \<Rightarrow> if s = [] then b else s)"

text \<open>A value inside a template literal: \<open>undefined\<close> prints as the word.\<close>

definition template_str :: "string option \<Rightarrow> string" where
  "template_str a = (case a of None \<Rightarrow> ''undefined'' | Some s \<Rightarrow> s)"

text \<open>\<open>Array.prototype.join\<close>; an \<open>undefined\<close> element joins as the empty string.\<close>

definition join :: "string \<Rightarrow> string list \<Rightarrow> string" where
  "join sep xs = (case xs of [] \<Rightarrow> [] | x # rest \<Rightarrow> foldl (\<lambda>acc y. acc @ sep @ y) x rest)"

definition join_opt :: "string \<Rightarrow> string option list \<Rightarrow> string" where
  "join_opt sep xs = join sep (map (\<lambda>a. case a of None \<Rightarrow> [] | Some s \<Rightarrow> s) xs)"

text \<open>Decimal printing of integers, as template literals print them.\<close>

definition digit_char :: "nat \<Rightarrow> char" where
  "digit_char d = ''0123456789'' ! d"

function show_nat :: "nat \<Rightarrow> string" where
  "show_nat n = (if n < 10 then [digit_char n] else show_nat (n div 10) @ [digit_char (n mod 10)])"
  by pat_completeness auto
termination
  by (relation "measure id") auto

declare show_nat.simps [simp del]

definition show_int :: "int \<Rightarrow> string" where
  "show_int i = (if i < 0 then CHR ''-'' # show_nat (nat (- i)) else show_nat (nat i))"

text \<open>The remainder operator \<open>%\<close> on integers with a positive divisor: the sign follows the dividend.\<close>

definition js_rem :: "int \<Rightarrow> int \<Rightarrow> int" where
  "js_rem a b = (if 0 \<le> a then a mod b else - ((- a) mod b))"

subsection \<open>The pattern \<open>DYNAMIC_MACRO_REGEX\<close>\<close>

text \<open>
  \<^verbatim>\<open>/\{\{(random|roll|time|date|weekday|isotime|isodate|idle_duration|time_UTC)(::|\}\})/gi\<close>.
  With the \<open>i\<close> flag (and no \<open>u\<close> flag) a pattern character matches a subject character
  when both have the same canonical form, which for the ASCII letters is the upper-case
  letter; no character outside ASCII is canonicalised to an ASCII one.
\<close>

definition upper_table :: "(char \<times> char) list" where
  "upper_table = zip ''abcdefghijklmnopqrstuvwxyz'' ''ABCDEFGHIJKLMNOPQRSTUVWXYZ''"

definition canonicalize :: "char \<Rightarrow> char" where
  "canonicalize c = (case map_of upper_table c of Some u \<Rightarrow> u | None \<Rightarrow> c)"

fun ci_prefix :: "string \<Rightarrow> string \<Rightarrow> bool" where
  "ci_prefix [] s = True"
| "ci_prefix (p # ps) [] = False"
| "ci_prefix (p # ps) (c # cs) = (canonicalize c = canonicalize p \<and> ci_prefix ps cs)"

definition macro_names :: "string list" where
  "macro_names = [''random'', ''roll'', ''time'', ''date'', ''weekday'', ''isotime'',
                  ''isodate'', ''idle_duration'', ''time_UTC'']"

text \<open>One alternative of the first group, followed by the second group, at the start of \<open>r\<close>.\<close>

definition name_matches :: "string \<Rightarrow> string \<Rightarrow> bool" where
  "name_matches r n =
     (ci_prefix n r \<and>
      (take 2 (drop (length n) r) = ''::'' \<or> take 2 (drop (length n) r) = ''}}''))"

text \<open>
  The pattern anchored at the start of \<open>s\<close>: the alternatives are tried in order. The
  result is the text of group 1 and the length of the whole match.
\<close>

definition match_here :: "string \<Rightarrow> (string \<times> nat) option" where
  "match_here s =
     (if take 2 s = ''{{'' then
        (case find (name_matches (drop 2 s)) macro_names of
           Some n \<Rightarrow> Some (take (length n) (drop 2 s), length n + 4)
         | None \<Rightarrow> None)
      else None)"

text \<open>The leftmost match in the suffix \<open>t\<close>, which starts at index \<open>p\<close> of the subject.\<close>

fun search :: "string \<Rightarrow> nat \<Rightarrow> (nat \<times> string \<times> nat) option" where
  "search [] p = None"
| "search (c # cs) p =
     (case match_here (c # cs) of
        Some (g, l) \<Rightarrow> Some (p, g, l)
      | None \<Rightarrow> search cs (Suc p))"

text \<open>
  \<open>RegExp.prototype.exec\<close> of a global pattern: the scan starts at \<open>lastIndex\<close>; a match
  leaves \<open>lastIndex\<close> at its end, a failure resets it to 0. The result is group 1 of
  the match and the new \<open>lastIndex\<close>.
\<close>

definition regex_exec :: "string \<Rightarrow> nat \<Rightarrow> string option \<times> nat" where
  "regex_exec s lastIndex =
     (if length s < lastIndex then (None, 0)
      else (case search (drop lastIndex s) lastIndex of
              None \<Rightarrow> (None, 0)
            | Some (p, g, l) \<Rightarrow> (Some g, p + l)))"

definition regex_test :: "string \<Rightarrow> nat \<Rightarrow> bool \<times> nat" where
  "regex_test s lastIndex = (case regex_exec s lastIndex of (m, li) \<Rightarrow> (m \<noteq> None, li))"

text \<open>
  The loop \<open>while ((match = DYNAMIC_MACRO_REGEX.exec(content)) !== null)\<close>: the list of
  the group-1 texts of the successive matches, from the given \<open>lastIndex\<close>.
\<close>

function exec_loop :: "string \<Rightarrow> nat \<Rightarrow> string list" where
  "exec_loop s lastIndex =
     (case regex_exec s lastIndex of
        (None, li) \<Rightarrow> []
      | (Some g, li) \<Rightarrow> g # exec_loop s li)"
  by pat_completeness auto
termination
proof (relation "measure (\<lambda>(s, lastIndex). length s - lastIndex)")
  show "wf (measure (\<lambda>(s, lastIndex). length s - lastIndex))"
    by simp
next
  fix s :: string and lastIndex :: nat and m :: "string option" and li :: nat and g :: string
  assume x: "(m, li) = regex_exec s lastIndex" "m = Some g"
  have ge: "search t p = Some (q, h, l) \<Longrightarrow> p \<le> q \<and> 0 < l \<and> t \<noteq> []"
    for t p q h l
  proof (induction t arbitrary: p)
    case Nil
    then show ?case by simp
  next
    case (Cons c cs)
    show ?case
    proof (cases "match_here (c # cs)")
      case None
      with Cons.prems have "search cs (Suc p) = Some (q, h, l)" by simp
      from Cons.IH [OF this] show ?thesis by simp
    next
      case (Some a)
      with Cons.prems show ?thesis
        by (auto simp: match_here_def split: if_splits option.splits)
    qed
  qed
  from x have r: "regex_exec s lastIndex = (Some g, li)" by (metis)
  then have le: "lastIndex \<le> length s"
    by (auto simp: regex_exec_def split: if_splits)
  from r le obtain p l where s: "search (drop lastIndex s) lastIndex = Some (p, g, l)"
    and li: "li = p + l"
    by (auto simp: regex_exec_def split: option.splits)
  from ge [OF s] have "lastIndex < li" and "drop lastIndex s \<noteq> []"
    using li by auto
  then have "length s - li < length s - lastIndex" by auto
  then show "((s, li), (s, lastIndex)) \<in> measure (\<lambda>(s, lastIndex). length s - lastIndex)"
    by simp
qed

declare exec_loop.simps [simp del]

section \<open>Data model\<close>

text \<open>A prompt entry of \<open>preset.prompts\<close>; an absent \<open>enabled\<close> is \<open>False\<close>.\<close>

record prompt =
  "identifier" :: string
  name :: "string option"
  content :: "string option"
  enabled :: bool
  role :: "string option"
  injection_position :: "int option"
  injection_depth :: "int option"

text \<open>
  An element of \<open>preset.prompt_order\<close>: an order record, or a per-character wrapper
  object whose \<open>order\<close> property holds the records (a wrapper has no \<open>enabled\<close>).
\<close>

record order_record =
  entry_identifier :: string
  entry_enabled :: bool

datatype order_item = Record order_record | Wrapper "order_record list"

text \<open>The preset; an absent \<open>squash_system_messages\<close> is \<open>False\<close>.\<close>

record preset =
  prompts :: "prompt list option"
  prompt_order :: "order_item list option"
  squash_system_messages :: bool

record options =
  provider :: "string option"
  tokenizer :: "(string \<Rightarrow> int) option"

text \<open>
  The \<open>meta\<close> object of a finding, one constructor per shape, the fields in the order of
  the source: \<open>macroFound, position, totalEntries, positionPercent\<close>;
  \<open>volatilePosition, stableEntriesAfter, stableIdentifiers\<close>;
  \<open>estimatedTokens, threshold, deficit, ratio\<close> (and, when the threshold is an inherited
  value, \<open>estimatedTokens\<close> and the key of that value, \<open>deficit\<close> and \<open>ratio\<close> being \<open>NaN\<close>);
  \<open>depth, injectionPosition, hasDynamicContent\<close>;
  \<open>systemPromptCount, squashEnabled\<close>;
  \<open>estimatedTokens, remainder, paddingNeeded\<close>;
  \<open>estimatedTokens, threshold, deficit\<close>.
\<close>

datatype meta =
    MacroPlacementMeta string nat nat real
  | PromptOrderingMeta nat nat "string list"
  | TokenThresholdsMeta int int int real
  | TokenThresholdsInheritedMeta int string
  | InjectionDepthMeta int int bool
  | AnthropicMeta nat bool
  | OpenAIMeta int int int
  | GoogleMeta int int int

text \<open>A finding; \<open>finding_id\<close> and \<open>finding_provider\<close> are its \<open>id\<close> and \<open>provider\<close>.\<close>

record finding =
  finding_id :: string
  rule :: string
  severity :: string
  title :: string
  description :: string
  affectedEntry :: string
  recommendation :: string
  finding_provider :: string
  meta :: meta

record summary =
  critical :: nat
  warning :: nat
  info :: nat

record analysis_result =
  findings :: "finding list"
  score :: int
  summary :: summary

datatype error = TypeError

section \<open>Shared preset handling\<close>

text \<open>
  \<open>let orderArray = preset.prompt_order; if (Array.isArray(orderArray) && orderArray.length > 0
  && orderArray[0].order) orderArray = orderArray[0].order;\<close> followed by
  \<open>orderArray.filter(entry => entry.enabled)\<close>.
\<close>

definition orderArray :: "order_item list \<Rightarrow> order_item list" where
  "orderArray po = (case po of Wrapper ord # rest \<Rightarrow> map Record ord | _ \<Rightarrow> po)"

fun enabled_items :: "order_item list \<Rightarrow> order_record list" where
  "enabled_items [] = []"
| "enabled_items (Record r # rest) =
     (if entry_enabled r then r # enabled_items rest else enabled_items rest)"
| "enabled_items (Wrapper ord # rest) = enabled_items rest"

definition enabledEntries :: "order_item list \<Rightarrow> order_record list" where
  "enabledEntries po = enabled_items (orderArray po)"

subsection \<open>The lookup object \<open>promptMap\<close>\<close>

text \<open>
  \<open>const promptMap = {}\<close> is a plain object. Its prototype is \<open>Object.prototype\<close>, whose
  properties are the functions listed here, each with the value of its \<open>name\<close> property,
  and the accessor \<open>__proto__\<close>.
\<close>

definition object_prototype :: "(string \<times> string) list" where
  "object_prototype =
     [(''constructor'', ''Object''),
      (''hasOwnProperty'', ''hasOwnProperty''),
      (''isPrototypeOf'', ''isPrototypeOf''),
      (''propertyIsEnumerable'', ''propertyIsEnumerable''),
      (''toLocaleString'', ''toLocaleString''),
      (''toString'', ''toString''),
      (''valueOf'', ''valueOf''),
      (''__defineGetter__'', ''__defineGetter__''),
      (''__defineSetter__'', ''__defineSetter__''),
      (''__lookupGetter__'', ''__lookupGetter__''),
      (''__lookupSetter__'', ''__lookupSetter__'')]"

text \<open>
  What \<open>promptMap[key]\<close> evaluates to, as far as the rules read it: \<open>undefined\<close> or
  another falsy value (\<open>Absent\<close>); a prompt entry; or a truthy value that is no prompt
  entry, which has no \<open>content\<close> and whose \<open>name\<close> property is the argument (\<open>None\<close> when it
  has none).
\<close>

datatype looked_up = Absent | Entry prompt | Foreign "string option"

text \<open>A key resolved in \<open>Object.prototype\<close> (other than \<open>__proto__\<close>).\<close>

definition inherited :: "string \<Rightarrow> looked_up" where
  "inherited k =
     (case map_of object_prototype k of None \<Rightarrow> Absent | Some nm \<Rightarrow> Foreign (Some nm))"

text \<open>
  The object: its own properties, and the prompt entry that has become its prototype
  (\<open>None\<close> while the prototype is \<open>Object.prototype\<close>). The assignment
  \<open>promptMap[prompt.identifier] = prompt\<close> creates or replaces an own property, except for
  the key \<open>__proto__\<close>: there it runs the inherited setter, which makes the prompt entry the
  prototype of \<open>promptMap\<close>.
\<close>

record prompt_object =
  own_entries :: "string \<rightharpoonup> prompt"
  prototype :: "prompt option"

definition assign_prompt :: "prompt_object \<Rightarrow> prompt \<Rightarrow> prompt_object" where
  "assign_prompt m p =
     (if identifier p = ''__proto__'' then m\<lparr>prototype := Some p\<rparr>
      else m\<lparr>own_entries := (own_entries m)(identifier p \<mapsto> p)\<rparr>)"

text \<open>\<open>for (const prompt of preset.prompts) promptMap[prompt.identifier] = prompt;\<close>\<close>

definition promptMap :: "prompt list \<Rightarrow> prompt_object" where
  "promptMap ps = foldl assign_prompt \<lparr>own_entries = Map.empty, prototype = None\<rparr> ps"

text \<open>
  The prompt entry \<open>p\<close> has an own property \<open>k\<close> with a truthy value. (The properties of a
  prompt entry are the fields of the record; their values are strings, booleans and
  numbers.)
\<close>

definition own_truthy :: "prompt \<Rightarrow> string \<Rightarrow> bool" where
  "own_truthy p k =
     (if k = ''identifier'' then identifier p \<noteq> []
      else if k = ''name'' then truthy (name p)
      else if k = ''content'' then truthy (content p)
      else if k = ''enabled'' then enabled p
      else if k = ''role'' then truthy (role p)
      else if k = ''injection_position'' then
        (case injection_position p of None \<Rightarrow> False | Some n \<Rightarrow> n \<noteq> 0)
      else if k = ''injection_depth'' then
        (case injection_depth p of None \<Rightarrow> False | Some n \<Rightarrow> n \<noteq> 0)
      else False)"

text \<open>
  \<open>promptMap[k]\<close>: the getter of \<open>__proto__\<close> returns the prototype; otherwise an own
  property, then a property of the prompt entry that is the prototype (a primitive value:
  truthy, or falsy), then \<open>Object.prototype\<close>.
\<close>

definition get_prompt :: "prompt_object \<Rightarrow> string \<Rightarrow> looked_up" where
  "get_prompt m k =
     (if k = ''__proto__'' then
        (case prototype m of None \<Rightarrow> Foreign None | Some p \<Rightarrow> Entry p)
      else
        (case own_entries m k of
           Some p \<Rightarrow> Entry p
         | None \<Rightarrow>
             (case prototype m of
                None \<Rightarrow> inherited k
              | Some p \<Rightarrow> if own_truthy p k then Foreign None else inherited k)))"

text \<open>\<open>const content = prompt ? prompt.content : '';\<close>\<close>

definition content_of :: "looked_up \<Rightarrow> string option" where
  "content_of pr =
     (case pr of Absent \<Rightarrow> Some [] | Entry p \<Rightarrow> content p | Foreign nm \<Rightarrow> None)"

section \<open>Volatility classifier\<close>

definition VOLATILE_IDENTIFIERS :: "string list" where
  "VOLATILE_IDENTIFIERS = [''chatHistory'', ''dialogueExamples'']"

text \<open>
  \<open>isVolatile\<close> with the pattern object's \<open>lastIndex\<close> passed in and returned: the
  function resets it before the test. Its three copies (in the prompt-ordering, the
  token-thresholds and the provider-specific rule) are the same text.
\<close>

definition isVolatile_st :: "string \<Rightarrow> string option \<Rightarrow> nat \<Rightarrow> bool \<times> nat" where
  "isVolatile_st ident c lastIndex =
     (if ident \<in> set VOLATILE_IDENTIFIERS then (True, lastIndex)
      else (case c of
              None \<Rightarrow> (False, lastIndex)
            | Some s \<Rightarrow>
                if s = [] then (False, lastIndex)
                else regex_test s 0))"

text \<open>
  The rules use the boolean only; it is the same for every incoming \<open>lastIndex\<close> (proved
  with the claim about the classifier).
\<close>

definition isVolatile :: "string \<Rightarrow> string option \<Rightarrow> bool" where
  "isVolatile ident c = fst (isVolatile_st ident c 0)"

text \<open>\<open>hasDynamicMacros\<close> of the injection-depth rule.\<close>

definition hasDynamicMacros :: "string option \<Rightarrow> bool" where
  "hasDynamicMacros c =
     (case c of None \<Rightarrow> False | Some s \<Rightarrow> if s = [] then False else fst (regex_test s 0))"

section \<open>Rule: macro placement\<close>

text \<open>
  The severity of a match in the entry at \<open>entryIndex\<close>. The source compares the double
  \<open>entryIndex / totalEntries\<close> with the double \<open>0.4\<close>. Rounding is monotone and the
  literal rounds up, so a quotient of exactly 2/5 or more is not below it; and a quotient
  below 2/5 is below it by at least \<open>1 / (5 * totalEntries)\<close>, far more than half a unit in
  the last place for every array length. The exact comparison therefore gives the same
  branch.
\<close>

definition placement_severity :: "nat \<Rightarrow> nat \<Rightarrow> string" where
  "placement_severity entryIndex totalEntries =
     (let positionPercent = real entryIndex / real totalEntries in
      if entryIndex = 0 then ''critical''
      else if positionPercent < 4 / 10 then ''warning''
      else ''info'')"

text \<open>The object pushed for one match; \<open>m1\<close> is \<open>match[1]\<close>.\<close>

definition placement_finding ::
  "order_record \<Rightarrow> prompt \<Rightarrow> nat \<Rightarrow> nat \<Rightarrow> nat \<Rightarrow> string \<Rightarrow> finding" where
  "placement_finding entry p entryIndex totalEntries macroIndex m1 =
     (let macroFound = ''{{'' @ m1 @ ''}}'';
          positionPercent = real entryIndex / real totalEntries;
          sev = placement_severity entryIndex totalEntries;
          entryName = or_else (name p) (entry_identifier entry)
      in \<lparr> finding_id = ''macro-placement-'' @ show_nat entryIndex @ ''-'' @ show_nat macroIndex,
           rule = ''macro-placement'',
           severity = sev,
           title = ''Dynamic macro in '' @
             (if sev = ''critical'' then ''system prompt'' else ''early prompt section''),
           description = macroFound @ '' found in '' @ dquote @ entryName @ dquote @
             '' (position '' @ show_nat (entryIndex + 1) @ '' of '' @ show_nat totalEntries @
             ''). This changes every generation and invalidates the cached prefix for all content after it.'',
           affectedEntry = entry_identifier entry,
           recommendation = ''Move '' @ macroFound @
             '' to a prompt entry in the latter half of the prompt order (after chat history), or replace it with a fixed value.'',
           finding_provider = ''all'',
           meta = MacroPlacementMeta macroFound entryIndex totalEntries positionPercent \<rparr>)"

text \<open>The body of the \<open>while\<close> loop over the successive matches, with its counter \<open>macroIndex\<close>.\<close>

fun match_findings ::
  "order_record \<Rightarrow> prompt \<Rightarrow> nat \<Rightarrow> nat \<Rightarrow> nat \<Rightarrow> string list \<Rightarrow> finding list" where
  "match_findings entry p entryIndex totalEntries macroIndex [] = []"
| "match_findings entry p entryIndex totalEntries macroIndex (m1 # rest) =
     placement_finding entry p entryIndex totalEntries macroIndex m1
       # match_findings entry p entryIndex totalEntries (Suc macroIndex) rest"

text \<open>The \<open>for\<close> loop over \<open>enabledEntries\<close>, with its counter \<open>entryIndex\<close>.\<close>

fun placement_loop ::
  "prompt_object \<Rightarrow> nat \<Rightarrow> nat \<Rightarrow> order_record list \<Rightarrow> finding list" where
  "placement_loop pm totalEntries entryIndex [] = []"
| "placement_loop pm totalEntries entryIndex (entry # rest) =
     (case get_prompt pm (entry_identifier entry) of
        Absent \<Rightarrow> placement_loop pm totalEntries (Suc entryIndex) rest
      | Foreign nm \<Rightarrow> placement_loop pm totalEntries (Suc entryIndex) rest
      | Entry p \<Rightarrow>
          (case content p of
             None \<Rightarrow> placement_loop pm totalEntries (Suc entryIndex) rest
           | Some s \<Rightarrow>
               if s = [] then placement_loop pm totalEntries (Suc entryIndex) rest
               else match_findings entry p entryIndex totalEntries 0 (exec_loop s 0)
                      @ placement_loop pm totalEntries (Suc entryIndex) rest))"

definition checkMacroPlacement :: "preset option \<Rightarrow> options \<Rightarrow> finding list" where
  "checkMacroPlacement pre opts =
     (case pre of
        None \<Rightarrow> []
      | Some p \<Rightarrow>
          (case prompts p of
             None \<Rightarrow> []
           | Some ps \<Rightarrow>
               (case prompt_order p of
                  None \<Rightarrow> []
                | Some po \<Rightarrow>
                    (let totalEntries = length (enabledEntries po) in
                     if totalEntries = 0 then []
                     else placement_loop (promptMap ps) totalEntries 0 (enabledEntries po)))))"

section \<open>Rule: prompt ordering\<close>

record classified =
  cl_entry :: order_record
  cl_prompt :: looked_up
  cl_index :: nat
  cl_volatile :: bool

text \<open>\<open>enabledEntries.map((entry, index) => ...)\<close>\<close>

fun classify :: "prompt_object \<Rightarrow> nat \<Rightarrow> order_record list \<Rightarrow> classified list" where
  "classify pm index [] = []"
| "classify pm index (entry # rest) =
     \<lparr> cl_entry = entry,
       cl_prompt = get_prompt pm (entry_identifier entry),
       cl_index = index,
       cl_volatile = isVolatile (entry_identifier entry)
                       (content_of (get_prompt pm (entry_identifier entry))) \<rparr>
       # classify pm (Suc index) rest"

text \<open>\<open>s.prompt ? s.prompt.name : s.entry.identifier\<close>; the name of a prompt may be absent.\<close>

definition display_name :: "classified \<Rightarrow> string option" where
  "display_name c =
     (case cl_prompt c of
        Absent \<Rightarrow> Some (entry_identifier (cl_entry c))
      | Entry p \<Rightarrow> name p
      | Foreign nm \<Rightarrow> nm)"

definition ordering_finding :: "nat \<Rightarrow> classified \<Rightarrow> classified list \<Rightarrow> finding" where
  "ordering_finding i volatileEntry stableAfter =
     (let entryName = display_name volatileEntry;
          stableNames = map display_name stableAfter
      in \<lparr> finding_id = ''prompt-ordering-'' @ show_nat i,
           rule = ''prompt-ordering'',
           severity = ''warning'',
           title = ''Volatile entry interleaved before stable content'',
           description = dquote @ template_str entryName @ dquote @ '' (position '' @
             show_nat (i + 1) @ '') is volatile and appears before '' @
             show_nat (length stableAfter) @ '' stable entries ('' @
             join_opt '', '' stableNames @ ''). This breaks the cacheable prefix '' @ em_dash @
             '' all stable content after this point cannot be cached together with earlier stable content.'',
           affectedEntry = entry_identifier (cl_entry volatileEntry),
           recommendation = ''Move '' @ dquote @ template_str entryName @ dquote @
             '' after all stable prompt entries so that the maximum amount of static content forms a contiguous cacheable prefix.'',
           finding_provider = ''all'',
           meta = PromptOrderingMeta i (length stableAfter)
                    (map (\<lambda>s. entry_identifier (cl_entry s)) stableAfter) \<rparr>)"

text \<open>
  The loop over \<open>i\<close>; the inner loop over \<open>j > i\<close> collects the stable entries of the
  rest of the list.
\<close>

fun ordering_loop :: "nat \<Rightarrow> classified list \<Rightarrow> finding list" where
  "ordering_loop i [] = []"
| "ordering_loop i (c # rest) =
     (if \<not> cl_volatile c then ordering_loop (Suc i) rest
      else (let stableAfter = filter (\<lambda>d. \<not> cl_volatile d) rest in
            if length stableAfter < 2 then ordering_loop (Suc i) rest
            else ordering_finding i c stableAfter # ordering_loop (Suc i) rest))"

definition checkPromptOrdering :: "preset option \<Rightarrow> options \<Rightarrow> finding list" where
  "checkPromptOrdering pre opts =
     (case pre of
        None \<Rightarrow> []
      | Some p \<Rightarrow>
          (case prompts p of
             None \<Rightarrow> []
           | Some ps \<Rightarrow>
               (case prompt_order p of
                  None \<Rightarrow> []
                | Some po \<Rightarrow>
                    if length (enabledEntries po) = 0 then []
                    else ordering_loop 0 (classify (promptMap ps) 0 (enabledEntries po)))))"

section \<open>Rule: token thresholds\<close>

definition anthropic_threshold :: int where
  "anthropic_threshold = 1024"

definition THRESHOLDS :: "(string \<times> int) list" where
  "THRESHOLDS = [(''anthropic'', anthropic_threshold), (''openai'', 1024), (''google'', 4096)]"

definition defaultTokenizer :: "string \<Rightarrow> int" where
  "defaultTokenizer text = \<lceil>real (length text) / 4\<rceil>"

text \<open>\<open>options.tokenizer || defaultTokenizer\<close>\<close>

definition tokenizer_of :: "options \<Rightarrow> string \<Rightarrow> int" where
  "tokenizer_of opts = (case tokenizer opts of None \<Rightarrow> defaultTokenizer | Some t \<Rightarrow> t)"

text \<open>
  \<open>THRESHOLDS[provider] || THRESHOLDS.anthropic\<close>. \<open>THRESHOLDS\<close> is a plain object too: for a
  provider string that names a property of \<open>Object.prototype\<close> the lookup yields the
  inherited function (or, for \<open>__proto__\<close>, the prototype object), which is truthy, so the
  fallback is not taken and the threshold is that value, named here by its key.
\<close>

datatype threshold_value = Number int | Inherited string

definition threshold_of :: "string \<Rightarrow> threshold_value" where
  "threshold_of pv =
     (case map_of THRESHOLDS pv of
        Some t \<Rightarrow> Number t
      | None \<Rightarrow>
          if pv = ''__proto__'' \<or> map_of object_prototype pv \<noteq> None then Inherited pv
          else Number anthropic_threshold)"

text \<open>The loop that collects \<open>stableContent\<close> in \<open>checkTokenThresholds\<close>.\<close>

fun thresholds_stable :: "prompt_object \<Rightarrow> order_record list \<Rightarrow> string list" where
  "thresholds_stable pm [] = []"
| "thresholds_stable pm (entry # rest) =
     (if \<not> isVolatile (entry_identifier entry)
             (content_of (get_prompt pm (entry_identifier entry))) then
        (case content_of (get_prompt pm (entry_identifier entry)) of
           None \<Rightarrow> thresholds_stable pm rest
         | Some s \<Rightarrow> if s = [] then thresholds_stable pm rest else s # thresholds_stable pm rest)
      else thresholds_stable pm rest)"

definition thresholds_estimate :: "prompt list \<Rightarrow> order_item list \<Rightarrow> (string \<Rightarrow> int) \<Rightarrow> int" where
  "thresholds_estimate ps po tok =
     tok (join newline (thresholds_stable (promptMap ps) (enabledEntries po)))"

text \<open>
  The severity by \<open>ratio = estimatedTokens / threshold\<close>. Both thresholds are powers of
  two, so the double quotient of an integer estimate is exact; \<open>0.9\<close> is no multiple of
  1/4096 and its double lies within \<open>2^-53\<close> of it, so the comparison with the double
  \<open>0.9\<close> and the exact one agree.
\<close>

definition thresholds_severity :: "real \<Rightarrow> string" where
  "thresholds_severity ratio =
     (if 9 / 10 \<le> ratio then ''warning''
      else if 8 / 10 \<le> ratio then ''info''
      else ''info'')"

definition thresholds_finding :: "string \<Rightarrow> int \<Rightarrow> int \<Rightarrow> finding" where
  "thresholds_finding pv estimatedTokens threshold =
     (let ratio = real_of_int estimatedTokens / real_of_int threshold
      in \<lparr> finding_id = ''token-thresholds-'' @ pv,
           rule = ''token-thresholds'',
           severity = thresholds_severity ratio,
           title = ''Stable prefix below '' @ pv @ '' cache threshold'',
           description = ''The stable prefix is estimated at '' @ show_int estimatedTokens @
             '' tokens, which is below the '' @ pv @ '' caching threshold of '' @
             show_int threshold @
             '' tokens. The prompt prefix will not be cached, resulting in full re-processing on every request.'',
           affectedEntry = ''all'',
           recommendation = ''Add more static content to your prompt entries before the chat history, or consolidate prompt entries to reach at least '' @
             show_int threshold @ '' tokens in the stable prefix.'',
           finding_provider = pv,
           meta = TokenThresholdsMeta estimatedTokens threshold (threshold - estimatedTokens) ratio \<rparr>)"

text \<open>
  The finding when the threshold is an inherited value \<open>k\<close>. Converted to a number it is
  \<open>NaN\<close>: \<open>estimatedTokens >= threshold\<close> is false, so the rule does not return early;
  \<open>ratio\<close> and \<open>deficit\<close> are \<open>NaN\<close>, both comparisons of \<open>ratio\<close> are false and the severity
  is info. In the messages the value is printed as V8 prints a built-in function (the text
  is the engine's), and \<open>Object.prototype\<close> as \<open>[object Object]\<close>.
\<close>

definition inherited_text :: "string \<Rightarrow> string" where
  "inherited_text k =
     (case map_of object_prototype k of
        None \<Rightarrow> ''[object Object]''
      | Some nm \<Rightarrow> ''function '' @ nm @ ''() { [native code] }'')"

definition thresholds_inherited_finding :: "string \<Rightarrow> int \<Rightarrow> string \<Rightarrow> finding" where
  "thresholds_inherited_finding pv estimatedTokens k =
     \<lparr> finding_id = ''token-thresholds-'' @ pv,
       rule = ''token-thresholds'',
       severity = ''info'',
       title = ''Stable prefix below '' @ pv @ '' cache threshold'',
       description = ''The stable prefix is estimated at '' @ show_int estimatedTokens @
         '' tokens, which is below the '' @ pv @ '' caching threshold of '' @
         inherited_text k @
         '' tokens. The prompt prefix will not be cached, resulting in full re-processing on every request.'',
       affectedEntry = ''all'',
       recommendation = ''Add more static content to your prompt entries before the chat history, or consolidate prompt entries to reach at least '' @
         inherited_text k @ '' tokens in the stable prefix.'',
       finding_provider = pv,
       meta = TokenThresholdsInheritedMeta estimatedTokens k \<rparr>"

definition checkTokenThresholds :: "preset option \<Rightarrow> options \<Rightarrow> finding list" where
  "checkTokenThresholds pre opts =
     (case pre of
        None \<Rightarrow> []
      | Some p \<Rightarrow>
          (case prompts p of
             None \<Rightarrow> []
           | Some ps \<Rightarrow>
               (case prompt_order p of
                  None \<Rightarrow> []
                | Some po \<Rightarrow>
                    (let pv = or_else (provider opts) ''anthropic'';
                         estimatedTokens = thresholds_estimate ps po (tokenizer_of opts)
                     in (case threshold_of pv of
                           Number threshold \<Rightarrow>
                             if threshold \<le> estimatedTokens then []
                             else [thresholds_finding pv estimatedTokens threshold]
                         | Inherited k \<Rightarrow>
                             [thresholds_inherited_finding pv estimatedTokens k])))))"

section \<open>Rule: injection depth\<close>

definition depth_severity :: "int \<Rightarrow> bool \<Rightarrow> string" where
  "depth_severity depth isDynamic =
     (if depth \<le> 1 \<and> isDynamic then ''critical''
      else if depth \<le> 1 then ''warning''
      else if isDynamic then ''warning''
      else ''info'')"

definition depth_finding :: "prompt \<Rightarrow> int \<Rightarrow> int \<Rightarrow> finding" where
  "depth_finding p pos depth =
     (let isDynamic = hasDynamicMacros (content p);
          entryName = or_else (name p) (identifier p)
      in \<lparr> finding_id = ''injection-depth-'' @ identifier p,
           rule = ''injection-depth'',
           severity = depth_severity depth isDynamic,
           title = (if isDynamic then ''Dynamic'' else ''Static'') @
             '' content injected at shallow depth '' @ show_int depth,
           description = dquote @ entryName @ dquote @ '' is injected into chat at depth '' @
             show_int depth @ (if isDynamic then '' with dynamic macros'' else []) @
             ''. Shallow injections near the end of conversation disrupt the cacheable portion of recent messages.'',
           affectedEntry = identifier p,
           recommendation = ''Consider increasing the injection depth to 4+ or moving this content to a fixed prompt position to preserve cache efficiency.'',
           finding_provider = ''all'',
           meta = InjectionDepthMeta depth pos isDynamic \<rparr>)"

text \<open>The loop over \<open>preset.prompts\<close>; each \<open>continue\<close> is a branch that moves on.\<close>

fun depth_loop :: "string set \<Rightarrow> prompt list \<Rightarrow> finding list" where
  "depth_loop enabledIdentifiers [] = []"
| "depth_loop enabledIdentifiers (p # rest) =
     (if \<not> enabled p then depth_loop enabledIdentifiers rest
      else if identifier p \<notin> enabledIdentifiers then depth_loop enabledIdentifiers rest
      else (case injection_position p of
              None \<Rightarrow> depth_loop enabledIdentifiers rest
            | Some pos \<Rightarrow>
                if pos \<noteq> 1 then depth_loop enabledIdentifiers rest
                else (case injection_depth p of
                        None \<Rightarrow> depth_loop enabledIdentifiers rest
                      | Some depth \<Rightarrow>
                          if 4 \<le> depth then depth_loop enabledIdentifiers rest
                          else depth_finding p pos depth # depth_loop enabledIdentifiers rest)))"

definition checkInjectionDepth :: "preset option \<Rightarrow> options \<Rightarrow> finding list" where
  "checkInjectionDepth pre opts =
     (case pre of
        None \<Rightarrow> []
      | Some p \<Rightarrow>
          (case prompts p of
             None \<Rightarrow> []
           | Some ps \<Rightarrow>
               (case prompt_order p of
                  None \<Rightarrow> []
                | Some po \<Rightarrow>
                    depth_loop (set (map entry_identifier (enabledEntries po))) ps)))"

section \<open>Rule: provider specific\<close>

text \<open>
  The helpers below have no guard of their own: reading \<open>prompt_order\<close> or \<open>prompts\<close>
  of a preset that lacks it raises a \<open>TypeError\<close>.
\<close>

fun prefix_stable :: "prompt_object \<Rightarrow> order_record list \<Rightarrow> string list" where
  "prefix_stable pm [] = []"
| "prefix_stable pm (entry # rest) =
     (if \<not> isVolatile (entry_identifier entry)
             (content_of (get_prompt pm (entry_identifier entry)))
          \<and> truthy (content_of (get_prompt pm (entry_identifier entry)))
      then str_of (content_of (get_prompt pm (entry_identifier entry))) # prefix_stable pm rest
      else prefix_stable pm rest)"

definition getStablePrefixTokens :: "preset \<Rightarrow> (string \<Rightarrow> int) \<Rightarrow> error + int" where
  "getStablePrefixTokens p tok =
     (case prompt_order p of
        None \<Rightarrow> Inl TypeError
      | Some po \<Rightarrow>
          (case prompts p of
             None \<Rightarrow> Inl TypeError
           | Some ps \<Rightarrow> Inr (tok (join newline (prefix_stable (promptMap ps) (enabledEntries po))))))"

definition squash_on_finding :: "nat \<Rightarrow> finding" where
  "squash_on_finding n =
     \<lparr> finding_id = ''provider-specific-anthropic-squash-on'',
       rule = ''provider-specific'',
       severity = ''info'',
       title = ''System message squashing enabled'',
       description = ''squash_system_messages is enabled with '' @ show_nat n @
         '' system prompts. This consolidates them into a single system message, which is optimal for Anthropic prompt caching.'',
       affectedEntry = ''all'',
       recommendation = ''No action needed '' @ squash_dash @
         '' this is the recommended configuration for Anthropic caching.'',
       finding_provider = ''anthropic'',
       meta = AnthropicMeta n True \<rparr>"

definition squash_off_finding :: "nat \<Rightarrow> finding" where
  "squash_off_finding n =
     \<lparr> finding_id = ''provider-specific-anthropic-squash-off'',
       rule = ''provider-specific'',
       severity = ''warning'',
       title = ''Fragmented system messages without squashing'',
       description = show_nat n @
         '' separate system prompts detected but squash_system_messages is not enabled. Anthropic treats each system message as a separate cache-breaking boundary.'',
       affectedEntry = ''all'',
       recommendation = ''Enable squash_system_messages in your preset settings to consolidate system prompts into a single message for better cache utilization.'',
       finding_provider = ''anthropic'',
       meta = AnthropicMeta n False \<rparr>"

definition systemPrompts :: "prompt list \<Rightarrow> order_item list \<Rightarrow> prompt list" where
  "systemPrompts ps po =
     filter (\<lambda>p. enabled p \<and> role p = Some ''system'' \<and>
                 identifier p \<in> set (map entry_identifier (enabledEntries po))) ps"

definition checkAnthropic :: "preset \<Rightarrow> options \<Rightarrow> error + finding list" where
  "checkAnthropic p opts =
     (case prompt_order p of
        None \<Rightarrow> Inl TypeError
      | Some po \<Rightarrow>
          (case prompts p of
             None \<Rightarrow> Inl TypeError
           | Some ps \<Rightarrow>
               Inr (if 1 < length (systemPrompts ps po) then
                      (if squash_system_messages p
                       then [squash_on_finding (length (systemPrompts ps po))]
                       else [squash_off_finding (length (systemPrompts ps po))])
                    else [])))"

definition alignment_finding :: "int \<Rightarrow> int \<Rightarrow> finding" where
  "alignment_finding estimatedTokens remainder =
     (let padding = 128 - remainder
      in \<lparr> finding_id = ''provider-specific-openai-alignment'',
           rule = ''provider-specific'',
           severity = ''info'',
           title = ''Stable prefix not aligned to 128-token boundary'',
           description = ''The stable prefix is estimated at '' @ show_int estimatedTokens @
             '' tokens (remainder '' @ show_int remainder @
             '' when divided by 128). OpenAI caches at 128-token boundaries, so '' @
             show_int padding @ '' tokens are wasted in the current boundary.'',
           affectedEntry = ''all'',
           recommendation = ''Consider adding ~'' @ show_int padding @
             '' tokens of static content to align your prefix to the next 128-token boundary for optimal cache utilization.'',
           finding_provider = ''openai'',
           meta = OpenAIMeta estimatedTokens remainder padding \<rparr>)"

definition checkOpenAI :: "preset \<Rightarrow> options \<Rightarrow> error + finding list" where
  "checkOpenAI p opts =
     (case getStablePrefixTokens p (tokenizer_of opts) of
        Inl e \<Rightarrow> Inl e
      | Inr estimatedTokens \<Rightarrow>
          (let remainder = js_rem estimatedTokens 128 in
           Inr (if remainder \<noteq> 0 then [alignment_finding estimatedTokens remainder] else [])))"

definition google_finding :: "int \<Rightarrow> int \<Rightarrow> finding" where
  "google_finding estimatedTokens threshold =
     \<lparr> finding_id = ''provider-specific-google-threshold'',
       rule = ''provider-specific'',
       severity = ''warning'',
       title = ''Stable prefix below Google caching threshold'',
       description = ''The stable prefix is estimated at '' @ show_int estimatedTokens @
         '' tokens, below Google's '' @ show_int threshold @
         ''-token minimum for context caching. The prefix will not be cached.'',
       affectedEntry = ''all'',
       recommendation = ''Add more static content to reach at least '' @ show_int threshold @
         '' tokens in your stable prefix for Google context caching to activate.'',
       finding_provider = ''google'',
       meta = GoogleMeta estimatedTokens threshold (threshold - estimatedTokens) \<rparr>"

definition checkGoogle :: "preset \<Rightarrow> options \<Rightarrow> error + finding list" where
  "checkGoogle p opts =
     (case getStablePrefixTokens p (tokenizer_of opts) of
        Inl e \<Rightarrow> Inl e
      | Inr estimatedTokens \<Rightarrow>
          Inr (if estimatedTokens < 4096 then [google_finding estimatedTokens 4096] else []))"

definition checkProviderSpecific :: "preset option \<Rightarrow> options \<Rightarrow> error + finding list" where
  "checkProviderSpecific pre opts =
     (case pre of
        None \<Rightarrow> Inr []
      | Some p \<Rightarrow>
          if prompts p = None \<or> prompt_order p = None then Inr []
          else (case provider opts of
                  None \<Rightarrow> Inr []
                | Some pv \<Rightarrow>
                    if pv = [] then Inr []
                    else if pv = ''anthropic'' then checkAnthropic p opts
                    else if pv = ''openai'' then checkOpenAI p opts
                    else if pv = ''google'' then checkGoogle p opts
                    else Inr []))"

section \<open>Aggregator\<close>

definition score_step :: "int \<Rightarrow> finding \<Rightarrow> int" where
  "score_step sc f =
     (if severity f = ''critical'' then sc - 20
      else if severity f = ''warning'' then sc - 10
      else if severity f = ''info'' then sc - 3
      else sc)"

definition calculateScore :: "finding list \<Rightarrow> int" where
  "calculateScore fs = max 0 (min 100 (foldl score_step 100 fs))"

definition analyze :: "preset option \<Rightarrow> options \<Rightarrow> error + analysis_result" where
  "analyze pre opts =
     (case checkProviderSpecific pre opts of
        Inl e \<Rightarrow> Inl e
      | Inr providerFindings \<Rightarrow>
          (let fs = checkMacroPlacement pre opts @ checkPromptOrdering pre opts @
                    checkTokenThresholds pre opts @ checkInjectionDepth pre opts @
                    providerFindings
           in Inr \<lparr> findings = fs,
                    score = calculateScore fs,
                    summary = \<lparr> critical = length (filter (\<lambda>f. severity f = ''critical'') fs),
                                warning = length (filter (\<lambda>f. severity f = ''warning'') fs),
                                info = length (filter (\<lambda>f. severity f = ''info'') fs) \<rparr> \<rparr>))"

section \<open>Notions of the specification\<close>

text \<open>The number of findings of one severity.\<close>

definition count_severity :: "string \<Rightarrow> finding list \<Rightarrow> int" where
  "count_severity sev fs = int (length (filter (\<lambda>f. severity f = sev) fs))"

text \<open>Two texts are equal up to the case of their ASCII letters.\<close>

definition ci_equal :: "string \<Rightarrow> string \<Rightarrow> bool" where
  "ci_equal a b = (map canonicalize a = map canonicalize b)"

text \<open>
  At offset \<open>p\<close> of \<open>s\<close> stands \<open>{{name\<close> followed at once by \<open>}}\<close> or by \<open>::\<close>, for one
  of the dynamic macro names in any case.
\<close>

definition macro_at :: "string \<Rightarrow> nat \<Rightarrow> bool" where
  "macro_at s p =
     (take 2 (drop p s) = ''{{'' \<and>
      (\<exists>n \<in> set macro_names.
         ci_equal (take (length n) (drop (p + 2) s)) n \<and>
         (take 2 (drop (p + 2 + length n) s) = ''}}'' \<or>
          take 2 (drop (p + 2 + length n) s) = ''::'')))"

text \<open>The text holds such an occurrence.\<close>

definition contains_macro :: "string \<Rightarrow> bool" where
  "contains_macro s = (\<exists>p \<in> set [0..<length s]. macro_at s p)"

text \<open>
  At offset \<open>p\<close> of \<open>s\<close> stands a complete marker \<open>{{name}}\<close> or \<open>{{name::args}}\<close>: in the
  second form the closing braces follow somewhere after the \<open>::\<close>.
\<close>

definition marker_at :: "string \<Rightarrow> nat \<Rightarrow> bool" where
  "marker_at s p =
     (take 2 (drop p s) = ''{{'' \<and>
      (\<exists>n \<in> set macro_names.
         ci_equal (take (length n) (drop (p + 2) s)) n \<and>
         (take 2 (drop (p + 2 + length n) s) = ''}}'' \<or>
          (take 2 (drop (p + 2 + length n) s) = ''::'' \<and>
           (\<exists>q \<in> set [p + 4 + length n..<length s]. take 2 (drop q s) = ''}}'')))))"

text \<open>The text holds a complete marker.\<close>

definition contains_marker :: "string \<Rightarrow> bool" where
  "contains_marker s = (\<exists>p \<in> set [0..<length s]. marker_at s p)"

text \<open>The offsets at which a dynamic macro occurs in a text.\<close>

definition macro_occurrences :: "string \<Rightarrow> nat list" where
  "macro_occurrences s = filter (macro_at s) [0..<length s]"

text \<open>The preset is null, or lacks \<open>prompts\<close> or \<open>prompt_order\<close>.\<close>

definition absent_input :: "preset option \<Rightarrow> bool" where
  "absent_input pre =
     (case pre of None \<Rightarrow> True | Some p \<Rightarrow> prompts p = None \<or> prompt_order p = None)"

text \<open>The prompts and the order of a preset that has both.\<close>

definition loaded :: "preset option \<Rightarrow> (prompt list \<times> order_item list) option" where
  "loaded pre =
     (case pre of
        None \<Rightarrow> None
      | Some p \<Rightarrow>
          (case prompts p of
             None \<Rightarrow> None
           | Some ps \<Rightarrow> (case prompt_order p of None \<Rightarrow> None | Some po \<Rightarrow> Some (ps, po))))"

text \<open>The result for absent input.\<close>

definition empty_result :: analysis_result where
  "empty_result = \<lparr> findings = [], score = 100,
                     summary = \<lparr> critical = 0, warning = 0, info = 0 \<rparr> \<rparr>"

text \<open>
  The order records of \<open>prompt_order\<close>: those listed by its first element when that is a
  wrapper, the records among its own elements otherwise.
\<close>

definition order_records :: "order_item list \<Rightarrow> order_record list" where
  "order_records po =
     (case po of
        Wrapper ord # rest \<Rightarrow> ord
      | _ \<Rightarrow> concat (map (\<lambda>it. case it of Record r \<Rightarrow> [r] | Wrapper ord \<Rightarrow> []) po))"

text \<open>The effective ordered sequence: the order records that are enabled, in order.\<close>

definition effective_records :: "order_item list \<Rightarrow> order_record list" where
  "effective_records po = filter entry_enabled (order_records po)"

definition effective_sequence :: "preset option \<Rightarrow> order_record list" where
  "effective_sequence pre =
     (case pre of
        None \<Rightarrow> []
      | Some p \<Rightarrow> (case prompt_order p of None \<Rightarrow> [] | Some po \<Rightarrow> effective_records po))"

text \<open>The prompt entries of a preset (none when it is null or has no \<open>prompts\<close>).\<close>

definition preset_prompts :: "preset option \<Rightarrow> prompt list" where
  "preset_prompts pre =
     (case pre of None \<Rightarrow> [] | Some p \<Rightarrow> (case prompts p of None \<Rightarrow> [] | Some ps \<Rightarrow> ps))"

text \<open>The identifier appears as an enabled record of the effective ordered sequence.\<close>

definition in_sequence :: "preset option \<Rightarrow> string \<Rightarrow> bool" where
  "in_sequence pre ident = (ident \<in> set (map entry_identifier (effective_sequence pre)))"

text \<open>
  The prompt entry with a given identifier: the last one of \<open>prompts\<close> that carries it.
\<close>

definition prompt_entry :: "prompt list \<Rightarrow> string \<Rightarrow> prompt option" where
  "prompt_entry ps k = find (\<lambda>p. identifier p = k) (rev ps)"

text \<open>The content of the prompt entry with identifier \<open>k\<close>: empty when there is no such entry
  or it has no content.\<close>

definition entry_text :: "prompt list \<Rightarrow> string \<Rightarrow> string" where
  "entry_text ps k = (case prompt_entry ps k of None \<Rightarrow> [] | Some q \<Rightarrow> str_of (content q))"

text \<open>The prompt entry an order record refers to, and its content (empty when there is none).\<close>

definition entry_prompt :: "preset option \<Rightarrow> order_record \<Rightarrow> prompt option" where
  "entry_prompt pre e =
     (case pre of
        None \<Rightarrow> None
      | Some p \<Rightarrow>
          (case prompts p of None \<Rightarrow> None | Some ps \<Rightarrow> prompt_entry ps (entry_identifier e)))"

definition entry_content :: "preset option \<Rightarrow> order_record \<Rightarrow> string" where
  "entry_content pre e =
     (case entry_prompt pre e of None \<Rightarrow> [] | Some q \<Rightarrow> str_of (content q))"

text \<open>The 0-based position a macro-placement finding records.\<close>

definition finding_position :: "finding \<Rightarrow> nat option" where
  "finding_position f =
     (case meta f of MacroPlacementMeta m pos n r \<Rightarrow> Some pos | _ \<Rightarrow> None)"

text \<open>
  An order record is volatile: its identifier is \<open>chatHistory\<close> or \<open>dialogueExamples\<close>, or the
  content of its prompt entry is classified volatile.
\<close>

definition entry_volatile :: "prompt list \<Rightarrow> order_record \<Rightarrow> bool" where
  "entry_volatile ps e =
     isVolatile (entry_identifier e) (Some (entry_text ps (entry_identifier e)))"






text \<open>
  The stable prefix: the contents of the records of the effective ordered sequence that are
  not volatile and have a non-empty content, in order, joined by newlines.
\<close>

definition stable_entry :: "prompt list \<Rightarrow> order_record \<Rightarrow> bool" where
  "stable_entry ps e =
     (\<not> entry_volatile ps e \<and> entry_text ps (entry_identifier e) \<noteq> [])"

definition stable_prefix :: "prompt list \<Rightarrow> order_item list \<Rightarrow> string" where
  "stable_prefix ps po =
     join newline
       (map (\<lambda>e. entry_text ps (entry_identifier e))
          (filter (stable_entry ps) (effective_records po)))"

text \<open>The thresholds by provider option, as the specification lists them.\<close>

definition provider_threshold :: "string option \<Rightarrow> int" where
  "provider_threshold pv =
     (if pv = Some ''anthropic'' then 1024
      else if pv = Some ''openai'' then 1024
      else if pv = Some ''google'' then 4096
      else 1024)"

text \<open>
  What one prompt entry contributes to the injection-depth rule: one finding when it is
  enabled, in the sequence, injected in chat (\<open>injection_position = 1\<close>) and has a depth
  below 4; nothing otherwise.
\<close>

definition depth_contribution :: "preset option \<Rightarrow> prompt \<Rightarrow> finding list" where
  "depth_contribution pre q =
     (if enabled q \<and> in_sequence pre (identifier q) \<and> injection_position q = Some 1 then
        (case injection_depth q of
           None \<Rightarrow> []
         | Some d \<Rightarrow> if d < 4 then [depth_finding q 1 d] else [])
      else [])"

text \<open>The number of enabled, in-sequence prompt entries with role \<open>system\<close>.\<close>

definition system_prompt_count :: "preset option \<Rightarrow> nat" where
  "system_prompt_count pre =
     length (filter (\<lambda>q. enabled q \<and> role q = Some ''system'' \<and> in_sequence pre (identifier q))
               (preset_prompts pre))"

text \<open>The flag \<open>squash_system_messages\<close> of the preset is true.\<close>

definition squash_enabled :: "preset option \<Rightarrow> bool" where
  "squash_enabled pre = (case pre of None \<Rightarrow> False | Some p \<Rightarrow> squash_system_messages p)"

section \<open>Sample inputs\<close>

text \<open>Options, entries and presets used to instantiate the theorems below.\<close>

definition sample_finding :: "string \<Rightarrow> finding" where
  "sample_finding sev =
     \<lparr> finding_id = ''sample'', rule = ''sample'', severity = sev, title = [], description = [],
       affectedEntry = ''all'', recommendation = [], finding_provider = ''all'',
       meta = AnthropicMeta 0 False \<rparr>"

definition no_options :: options where
  "no_options = \<lparr> provider = None, tokenizer = None \<rparr>"

definition provider_options :: "string \<Rightarrow> options" where
  "provider_options pv = \<lparr> provider = Some pv, tokenizer = None \<rparr>"


definition fixed_tokenizer :: "int \<Rightarrow> options" where
  "fixed_tokenizer n = \<lparr> provider = None, tokenizer = Some (\<lambda>text. n) \<rparr>"

definition provider_tokens :: "string \<Rightarrow> int \<Rightarrow> options" where
  "provider_tokens pv n = \<lparr> provider = Some pv, tokenizer = Some (\<lambda>text. n) \<rparr>"

definition mk_prompt :: "string \<Rightarrow> string \<Rightarrow> string \<Rightarrow> prompt" where
  "mk_prompt ident nm text =
     \<lparr> identifier = ident, name = Some nm, content = Some text, enabled = True,
       role = Some ''system'', injection_position = None, injection_depth = None \<rparr>"

definition enabled_record :: "string \<Rightarrow> order_record" where
  "enabled_record ident = \<lparr> entry_identifier = ident, entry_enabled = True \<rparr>"

definition injected :: "string \<Rightarrow> string \<Rightarrow> int option \<Rightarrow> int option \<Rightarrow> prompt" where
  "injected ident text pos d =
     \<lparr> identifier = ident, name = Some ident, content = Some text, enabled = True,
       role = Some ''system'', injection_position = pos, injection_depth = d \<rparr>"

definition empty_preset :: preset where
  "empty_preset = \<lparr> prompts = Some [], prompt_order = Some [], squash_system_messages = False \<rparr>"

definition no_prompts_preset :: preset where
  "no_prompts_preset =
     \<lparr> prompts = Some [],
       prompt_order = Some [Record \<lparr> entry_identifier = ''chatHistory'', entry_enabled = True \<rparr>,
                            Record \<lparr> entry_identifier = ''main'', entry_enabled = True \<rparr>,
                            Record \<lparr> entry_identifier = ''scenario'', entry_enabled = True \<rparr>],
       squash_system_messages = False \<rparr>"

definition order_only_preset :: preset where
  "order_only_preset =
     \<lparr> prompts = None,
       prompt_order = Some [Record \<lparr> entry_identifier = ''chatHistory'', entry_enabled = True \<rparr>,
                            Record \<lparr> entry_identifier = ''main'', entry_enabled = True \<rparr>,
                            Record \<lparr> entry_identifier = ''scenario'', entry_enabled = True \<rparr>],
       squash_system_messages = False \<rparr>"

definition macro_preset :: preset where
  "macro_preset =
     \<lparr> prompts = Some
         [\<lparr> identifier = ''main'', name = Some ''Main'', content = Some ''Seed {{random}}'',
            enabled = True, role = Some ''system'', injection_position = None,
            injection_depth = None \<rparr>,
          \<lparr> identifier = ''clock'', name = Some ''Clock'', content = Some ''Now: {{TIME}}'',
            enabled = True, role = Some ''system'', injection_position = None,
            injection_depth = None \<rparr>,
          \<lparr> identifier = ''tail'', name = None, content = Some ''{{date}} and {{roll::1d6}}'',
            enabled = True, role = Some ''system'', injection_position = None,
            injection_depth = None \<rparr>],
       prompt_order = Some
         [Wrapper [\<lparr> entry_identifier = ''main'', entry_enabled = True \<rparr>,
                   \<lparr> entry_identifier = ''clock'', entry_enabled = True \<rparr>,
                   \<lparr> entry_identifier = ''unused'', entry_enabled = False \<rparr>,
                   \<lparr> entry_identifier = ''tail'', entry_enabled = True \<rparr>]],
       squash_system_messages = False \<rparr>"

definition scenario_b_prompts :: "prompt list" where
  "scenario_b_prompts =
     [mk_prompt ''main'' ''Main Prompt'' ''You are a helpful assistant.'',
      mk_prompt ''charDescription'' ''Char Description'' ''A tall knight.'',
      mk_prompt ''scenario'' ''Scenario'' ''A castle at night.'']"

definition scenario_b_order :: "order_item list" where
  "scenario_b_order =
     [Wrapper [enabled_record ''main'', enabled_record ''chatHistory'',
               enabled_record ''charDescription'', enabled_record ''scenario'']]"

definition scenario_b :: preset where
  "scenario_b = \<lparr> prompts = Some scenario_b_prompts, prompt_order = Some scenario_b_order,
                   squash_system_messages = False \<rparr>"






text \<open>
  A preset in the nested form with seven enabled records and a disabled one; the wrapper
  of a second character, which enables \<open>h\<close>, is not the first element.
\<close>

definition depth_preset :: preset where
  "depth_preset =
     \<lparr> prompts = Some
         [injected ''a'' ''Time is {{time}}'' (Some 1) (Some 0),
          injected ''b'' ''Stay calm.'' (Some 1) (Some 1),
          injected ''c'' ''Dice {{roll::1d6}}'' (Some 1) (Some 2),
          injected ''d'' ''Be brief.'' (Some 1) (Some 3),
          injected ''e'' ''Deep {{random}}'' (Some 1) (Some 4),
          injected ''f'' ''No depth {{random}}'' (Some 1) None,
          injected ''g'' ''Ordered {{random}}'' (Some 0) (Some 0),
          injected ''h'' ''Not in order {{random}}'' (Some 1) (Some 0)],
       prompt_order = Some
         [Wrapper [enabled_record ''a'', enabled_record ''b'', enabled_record ''c'',
                   enabled_record ''d'', enabled_record ''e'', enabled_record ''f'',
                   enabled_record ''g'',
                   \<lparr> entry_identifier = ''h'', entry_enabled = False \<rparr>],
          Wrapper [enabled_record ''h'']],
       squash_system_messages = False \<rparr>"

text \<open>A preset in the flat form: the record of \<open>y\<close> is disabled, and so is the prompt entry \<open>z\<close>.\<close>

definition depth_flat :: preset where
  "depth_flat =
     \<lparr> prompts = Some
         [injected ''x'' ''Stay calm.'' (Some 1) (Some 0),
          injected ''y'' ''Today is {{WeekDay}}'' (Some 1) (Some 0),
          (injected ''z'' ''Idle {{idle_duration}}'' (Some 1) (Some 0))\<lparr> enabled := False \<rparr>,
          injected ''w'' ''At {{ISOTIME}}'' (Some 1) (Some 3)],
       prompt_order = Some
         [Record (enabled_record ''x''),
          Record \<lparr> entry_identifier = ''y'', entry_enabled = False \<rparr>,
          Record (enabled_record ''z''),
          Record (enabled_record ''w'')],
       squash_system_messages = False \<rparr>"

text \<open>Scenario C of the specification, in the nested form.\<close>

definition scenario_c :: "bool \<Rightarrow> preset" where
  "scenario_c squash =
     \<lparr> prompts = Some [mk_prompt ''main'' ''Main Prompt'' ''You are a helpful assistant.'',
                       mk_prompt ''nsfw'' ''Auxiliary Prompt'' ''Keep it clean.''],
       prompt_order = Some [Wrapper [enabled_record ''main'', enabled_record ''nsfw'',
                                     enabled_record ''chatHistory'']],
       squash_system_messages = squash \<rparr>"

text \<open>The same in the flat form, with a third system prompt whose record is disabled.\<close>

definition scenario_c_flat :: preset where
  "scenario_c_flat =
     \<lparr> prompts = Some [mk_prompt ''main'' ''Main Prompt'' ''You are a helpful assistant.'',
                       mk_prompt ''nsfw'' ''Auxiliary Prompt'' ''Keep it clean.'',
                       mk_prompt ''jailbreak'' ''Closing'' ''Stay in character.''],
       prompt_order = Some [Record (enabled_record ''main''), Record (enabled_record ''nsfw''),
                            Record \<lparr> entry_identifier = ''jailbreak'', entry_enabled = False \<rparr>,
                            Record (enabled_record ''chatHistory'')],
       squash_system_messages = False \<rparr>"

text \<open>
  In the nested form: two system prompts, but the record of one is disabled in the first
  wrapper (and enabled in the second, which is not read).
\<close>

definition single_system :: preset where
  "single_system =
     \<lparr> prompts = Some [mk_prompt ''main'' ''Main Prompt'' ''You are a helpful assistant.'',
                       mk_prompt ''nsfw'' ''Auxiliary Prompt'' ''Keep it clean.''],
       prompt_order = Some [Wrapper [enabled_record ''main'',
                                     \<lparr> entry_identifier = ''nsfw'', entry_enabled = False \<rparr>,
                                     enabled_record ''chatHistory''],
                            Wrapper [enabled_record ''main'', enabled_record ''nsfw'']],
       squash_system_messages = False \<rparr>"

text \<open>
  A preset in the nested form for the prompt-ordering rule: \<open>clock\<close> holds a dynamic macro,
  \<open>main\<close> occurs twice among the prompt entries, \<open>persona\<close> has no name, the record of
  \<open>scenario\<close> is disabled, and \<open>constructor\<close> and \<open>missing\<close> have no prompt entry.
\<close>

definition interleaved_prompts :: "prompt list" where
  "interleaved_prompts =
     [mk_prompt ''main'' ''Old Main'' ''{{date}}'',
      mk_prompt ''clock'' ''Clock'' ''It is {{TIME_utc}} now.'',
      mk_prompt ''main'' ''Main Prompt'' ''You are a helpful assistant.'',
      (mk_prompt ''persona'' [] ''A calm guide.'')\<lparr> name := None \<rparr>,
      mk_prompt ''scenario'' ''Scenario'' ''A castle at night.'']"

definition interleaved_order :: "order_item list" where
  "interleaved_order =
     [Wrapper [enabled_record ''clock'', enabled_record ''main'', enabled_record ''chatHistory'',
               \<lparr> entry_identifier = ''scenario'', entry_enabled = False \<rparr>,
               enabled_record ''constructor'', enabled_record ''persona'',
               enabled_record ''missing'']]"

definition interleaved :: preset where
  "interleaved = \<lparr> prompts = Some interleaved_prompts, prompt_order = Some interleaved_order,
                    squash_system_messages = False \<rparr>"


text \<open>
  A preset in the nested form for the stable prefix: the record of \<open>scenario\<close> is disabled,
  \<open>stamp\<close> holds a dynamic macro, \<open>blank\<close> has an empty content, \<open>bare\<close> has none, \<open>missing\<close>
  and \<open>toString\<close> have no prompt entry, and \<open>main\<close> occurs twice among the prompt entries.
\<close>

definition prefix_prompts :: "prompt list" where
  "prefix_prompts =
     [mk_prompt ''main'' ''Old Main'' ''Outdated.'',
      mk_prompt ''main'' ''Main Prompt'' ''You are a helpful assistant.'',
      mk_prompt ''scenario'' ''Scenario'' ''A castle at night.'',
      mk_prompt ''stamp'' ''Stamp'' ''Written on {{IsoDate}}.'',
      mk_prompt ''blank'' ''Blank'' [],
      (mk_prompt ''bare'' ''Bare'' [])\<lparr> content := None \<rparr>,
      mk_prompt ''persona'' ''Persona'' ''A calm guide.'',
      mk_prompt ''chatHistory'' ''Chat History'' ''Earlier messages.'']"

definition prefix_order :: "order_item list" where
  "prefix_order =
     [Wrapper [enabled_record ''main'',
               \<lparr> entry_identifier = ''scenario'', entry_enabled = False \<rparr>,
               enabled_record ''stamp'', enabled_record ''blank'', enabled_record ''bare'',
               enabled_record ''missing'', enabled_record ''toString'',
               enabled_record ''chatHistory'', enabled_record ''persona''],
      Wrapper [enabled_record ''scenario'']]"

definition prefix_preset :: preset where
  "prefix_preset = \<lparr> prompts = Some prefix_prompts, prompt_order = Some prefix_order,
                      squash_system_messages = False \<rparr>"

text \<open>The same prompt entries with a flat order.\<close>

definition prefix_flat_order :: "order_item list" where
  "prefix_flat_order =
     [Record (enabled_record ''persona''),
      Record \<lparr> entry_identifier = ''scenario'', entry_enabled = False \<rparr>,
      Record (enabled_record ''main'')]"

definition prefix_flat :: preset where
  "prefix_flat = \<lparr> prompts = Some prefix_prompts, prompt_order = Some prefix_flat_order,
                    squash_system_messages = False \<rparr>"

section \<open>Properties of the pattern and the classifier\<close>

lemma ci_prefix_iff:
  "ci_prefix n r \<longleftrightarrow> length n \<le> length r \<and> ci_equal (take (length n) r) n"
proof (induction n r rule: ci_prefix.induct)
  case (1 s)
  show ?case by (simp add: ci_equal_def)
next
  case (2 p ps)
  show ?case by simp
next
  case (3 p ps c cs)
  then show ?case by (auto simp: ci_equal_def)
qed

lemma ci_equal_length: "ci_equal a b \<Longrightarrow> length a = length b"
  unfolding ci_equal_def by (metis length_map)

lemma name_matches_iff:
  "name_matches r n \<longleftrightarrow>
     ci_equal (take (length n) r) n \<and>
     (take 2 (drop (length n) r) = ''}}'' \<or> take 2 (drop (length n) r) = ''::'')"
proof -
  have "ci_equal (take (length n) r) n \<Longrightarrow> length n \<le> length r"
    using ci_equal_length [of "take (length n) r" n] by simp
  then show ?thesis
    unfolding name_matches_def ci_prefix_iff by blast
qed

lemma match_here_iff: "match_here (drop p s) \<noteq> None \<longleftrightarrow> macro_at s p"
proof -
  have "(find (name_matches (drop 2 (drop p s))) macro_names \<noteq> None) =
        (\<exists>n \<in> set macro_names. name_matches (drop (p + 2) s) n)"
    by (auto simp: find_None_iff add.commute)
  then show ?thesis
    unfolding match_here_def macro_at_def name_matches_iff
    by (auto simp: add.commute add.left_commute split: option.splits)
qed

lemma search_None_iff:
  "search t p = None \<longleftrightarrow> (\<forall>k < length t. match_here (drop k t) = None)"
proof (induction t arbitrary: p)
  case Nil
  show ?case by simp
next
  case (Cons c cs)
  show ?case
  proof (cases "match_here (c # cs)")
    case None
    have "(\<forall>k < length (c # cs). match_here (drop k (c # cs)) = None) \<longleftrightarrow>
          (\<forall>k < length cs. match_here (drop k cs) = None)"
      using None by (auto simp: less_Suc_eq_0_disj)
    with None Cons show ?thesis by simp
  next
    case (Some a)
    then have "\<not> (\<forall>k < length (c # cs). match_here (drop k (c # cs)) = None)"
      by (auto intro: exI [of _ 0])
    with Some show ?thesis by (simp split: prod.splits)
  qed
qed

lemma regex_test_0: "fst (regex_test s 0) \<longleftrightarrow> contains_macro s"
proof -
  have "fst (regex_test s 0) \<longleftrightarrow> search s 0 \<noteq> None"
    by (auto simp: regex_test_def regex_exec_def split: option.splits prod.splits)
  also have "\<dots> \<longleftrightarrow> (\<exists>k < length s. match_here (drop k s) \<noteq> None)"
    by (simp add: search_None_iff)
  also have "\<dots> \<longleftrightarrow> contains_macro s"
    unfolding contains_macro_def match_here_iff by auto
  finally show ?thesis .
qed

lemma contains_macro_Nil: "\<not> contains_macro []"
  by (simp add: contains_macro_def)

lemma isVolatile_st_iff:
  "fst (isVolatile_st ident c li) \<longleftrightarrow>
     ident = ''chatHistory'' \<or> ident = ''dialogueExamples'' \<or>
     (\<exists>s. c = Some s \<and> contains_macro s)"
  unfolding isVolatile_st_def
  by (auto simp: VOLATILE_IDENTIFIERS_def regex_test_0 contains_macro_Nil split: option.splits)

text \<open>Each of the nine names is matched, in any case and with either terminator.\<close>

lemma isVolatile_each_name:
  "isVolatile ''main'' (Some ''{{random}}'')
   \<and> isVolatile ''main'' (Some ''a {{ROLL::1d6}} b'')
   \<and> isVolatile ''main'' (Some ''{{Time}}'')
   \<and> isVolatile ''main'' (Some ''{{date::x}}'')
   \<and> isVolatile ''main'' (Some ''on {{WeekDay}}'')
   \<and> isVolatile ''main'' (Some ''{{isotime}}'')
   \<and> isVolatile ''main'' (Some ''{{ISODATE}}'')
   \<and> isVolatile ''main'' (Some ''{{idle_Duration}}'')
   \<and> isVolatile ''main'' (Some ''{{time_utc::+2}}'')
   \<and> \<not> isVolatile ''main'' (Some ''{{timer}}'')
   \<and> \<not> isVolatile ''main'' (Some ''{{time_utc}'')
   \<and> \<not> isVolatile ''main'' (Some ''{ {time}}'')"
  by code_simp

section \<open>Properties shared by the rules\<close>

lemma absent_no_findings:
  assumes "absent_input pre"
  shows "checkMacroPlacement pre opts = []" and "checkPromptOrdering pre opts = []"
    and "checkTokenThresholds pre opts = []" and "checkInjectionDepth pre opts = []"
    and "checkProviderSpecific pre opts = Inr []"
proof -
  consider "pre = None" | p where "pre = Some p" "prompts p = None"
    | p ps where "pre = Some p" "prompts p = Some ps" "prompt_order p = None"
    using assms by (cases pre) (auto simp: absent_input_def)
  then have "checkMacroPlacement pre opts = [] \<and> checkPromptOrdering pre opts = []
    \<and> checkTokenThresholds pre opts = [] \<and> checkInjectionDepth pre opts = []
    \<and> checkProviderSpecific pre opts = Inr []"
  proof cases
    case 1
    then show ?thesis
      by (simp add: checkMacroPlacement_def checkPromptOrdering_def checkTokenThresholds_def
          checkInjectionDepth_def checkProviderSpecific_def)
  next
    case 2
    then show ?thesis
      by (simp add: checkMacroPlacement_def checkPromptOrdering_def checkTokenThresholds_def
          checkInjectionDepth_def checkProviderSpecific_def)
  next
    case 3
    then show ?thesis
      by (simp add: checkMacroPlacement_def checkPromptOrdering_def checkTokenThresholds_def
          checkInjectionDepth_def checkProviderSpecific_def)
  qed
  then show "checkMacroPlacement pre opts = []" and "checkPromptOrdering pre opts = []"
    and "checkTokenThresholds pre opts = []" and "checkInjectionDepth pre opts = []"
    and "checkProviderSpecific pre opts = Inr []"
    by simp_all
qed

lemma loaded_None_iff: "loaded pre = None \<longleftrightarrow> absent_input pre"
  by (simp add: loaded_def absent_input_def split: option.splits)

lemma loaded_SomeE:
  assumes "loaded pre = Some a"
  obtains p ps po where "pre = Some p" "prompts p = Some ps" "prompt_order p = Some po"
    "a = (ps, po)"
  using assms by (auto simp: loaded_def split: option.splits)

lemma enabled_items_eq:
  "enabled_items xs =
     filter entry_enabled (concat (map (\<lambda>it. case it of Record r \<Rightarrow> [r] | Wrapper ord \<Rightarrow> []) xs))"
  by (induction xs rule: enabled_items.induct) simp_all

lemma enabled_items_Record: "enabled_items (map Record ord) = filter entry_enabled ord"
  by (induction ord) simp_all

lemma enabledEntries_eq: "enabledEntries po = effective_records po"
proof (cases po)
  case Nil
  then show ?thesis
    by (simp add: enabledEntries_def orderArray_def effective_records_def order_records_def)
next
  case (Cons it rest)
  show ?thesis
  proof (cases it)
    case (Record r)
    with Cons show ?thesis
      by (simp add: enabledEntries_def orderArray_def effective_records_def order_records_def
          enabled_items_eq)
  next
    case (Wrapper ord)
    with Cons show ?thesis
      by (simp add: enabledEntries_def orderArray_def effective_records_def order_records_def
          enabled_items_Record)
  qed
qed

lemma effective_sequence_loaded:
  "prompt_order p = Some po \<Longrightarrow> effective_sequence (Some p) = enabledEntries po"
  by (simp add: effective_sequence_def enabledEntries_eq)

lemma foldl_assign_own:
  "k \<noteq> ''__proto__'' \<Longrightarrow>
     own_entries (foldl assign_prompt m ps) k =
       (case find (\<lambda>p. identifier p = k) (rev ps) of None \<Rightarrow> own_entries m k | Some q \<Rightarrow> Some q)"
  by (induction ps rule: rev_induct) (auto simp: assign_prompt_def)

lemma foldl_assign_proto_own:
  "own_entries (foldl assign_prompt m ps) ''__proto__'' = own_entries m ''__proto__''"
  by (induction ps rule: rev_induct) (auto simp: assign_prompt_def)

lemma foldl_assign_prototype:
  "prototype (foldl assign_prompt m ps) =
     (case find (\<lambda>p. identifier p = ''__proto__'') (rev ps) of
        None \<Rightarrow> prototype m
      | Some q \<Rightarrow> Some q)"
  by (induction ps rule: rev_induct) (auto simp: assign_prompt_def)

text \<open>The lookup in \<open>promptMap\<close>, in terms of the prompt entries.\<close>

lemma get_prompt_promptMap:
  "get_prompt (promptMap ps) k =
     (case prompt_entry ps k of
        Some q \<Rightarrow> Entry q
      | None \<Rightarrow>
          if k = ''__proto__'' then Foreign None
          else if (case prompt_entry ps ''__proto__'' of
                     None \<Rightarrow> False
                   | Some q \<Rightarrow> own_truthy q k) then Foreign None
          else inherited k)"
proof (cases "k = ''__proto__''")
  case True
  then show ?thesis
    by (simp add: get_prompt_def promptMap_def prompt_entry_def foldl_assign_prototype
        split: option.splits)
next
  case False
  then show ?thesis
    by (simp add: get_prompt_def promptMap_def prompt_entry_def foldl_assign_prototype
        foldl_assign_own split: option.splits)
qed

lemma get_prompt_Entry_iff:
  "get_prompt (promptMap ps) k = Entry q \<longleftrightarrow> prompt_entry ps k = Some q"
  by (auto simp: get_prompt_promptMap inherited_def split: option.splits if_splits)

lemma content_text: "str_of (content_of (get_prompt (promptMap ps) k)) = entry_text ps k"
  by (simp add: get_prompt_promptMap entry_text_def content_of_def str_of_def inherited_def
      split: option.splits)

lemma truthy_str_of: "truthy c \<longleftrightarrow> str_of c \<noteq> []"
  by (simp add: truthy_def str_of_def split: option.splits)

lemma isVolatile_str_of: "isVolatile k c = isVolatile k (Some (str_of c))"
  by (cases c) (simp_all add: isVolatile_def isVolatile_st_def str_of_def)

lemma isVolatile_entry:
  "isVolatile (entry_identifier e) (content_of (get_prompt (promptMap ps) (entry_identifier e))) =
     entry_volatile ps e"
  unfolding entry_volatile_def content_text [symmetric]
  by (rule isVolatile_str_of)

lemma stable_entry_code:
  "(\<not> isVolatile (entry_identifier e) (content_of (get_prompt (promptMap ps) (entry_identifier e)))
    \<and> truthy (content_of (get_prompt (promptMap ps) (entry_identifier e)))) = stable_entry ps e"
  by (simp add: isVolatile_entry truthy_str_of content_text stable_entry_def)

lemma thresholds_stable_eq:
  "thresholds_stable (promptMap ps) es =
     map (\<lambda>e. entry_text ps (entry_identifier e)) (filter (stable_entry ps) es)"
proof (induction es)
  case Nil
  show ?case by simp
next
  case (Cons e es)
  define c where "c = content_of (get_prompt (promptMap ps) (entry_identifier e))"
  have v: "isVolatile (entry_identifier e) c = entry_volatile ps e"
    unfolding c_def by (rule isVolatile_entry)
  have t: "entry_text ps (entry_identifier e) = str_of c"
    unfolding c_def by (simp add: content_text)
  have step: "thresholds_stable (promptMap ps) (e # es) =
      (if \<not> isVolatile (entry_identifier e) c then
         (case c of
            None \<Rightarrow> thresholds_stable (promptMap ps) es
          | Some s \<Rightarrow> if s = [] then thresholds_stable (promptMap ps) es
                      else s # thresholds_stable (promptMap ps) es)
       else thresholds_stable (promptMap ps) es)"
    by (simp add: c_def)
  show ?case
    unfolding step v using Cons
    by (cases c) (simp_all add: stable_entry_def t str_of_def)
qed

lemma prefix_stable_eq:
  "prefix_stable (promptMap ps) es =
     map (\<lambda>e. entry_text ps (entry_identifier e)) (filter (stable_entry ps) es)"
  by (induction es) (simp_all add: stable_entry_code content_text)

lemma thresholds_estimate_eq: "thresholds_estimate ps po tok = tok (stable_prefix ps po)"
  by (simp add: thresholds_estimate_def stable_prefix_def thresholds_stable_eq enabledEntries_eq)

lemma getStablePrefixTokens_eq:
  "prompts p = Some ps \<Longrightarrow> prompt_order p = Some po \<Longrightarrow>
     getStablePrefixTokens p tok = Inr (tok (stable_prefix ps po))"
  by (simp add: getStablePrefixTokens_def stable_prefix_def prefix_stable_eq enabledEntries_eq)



lemma hasDynamicMacros_iff: "hasDynamicMacros c \<longleftrightarrow> contains_macro (str_of c)"
  by (cases c) (simp_all add: hasDynamicMacros_def str_of_def regex_test_0 contains_macro_Nil)

section \<open>The claims\<close>

subsection \<open>C1: absent input\<close>

lemma checkProviderSpecific_returns: "\<exists>fs. checkProviderSpecific pre opts = Inr fs"
proof (cases pre)
  case None
  then show ?thesis by (simp add: checkProviderSpecific_def)
next
  case (Some p)
  show ?thesis
  proof (cases "prompts p = None \<or> prompt_order p = None")
    case True
    with Some show ?thesis by (simp add: checkProviderSpecific_def)
  next
    case False
    then obtain ps po where "prompts p = Some ps" "prompt_order p = Some po" by auto
    then have "(\<exists>fs. checkAnthropic p opts = Inr fs) \<and> (\<exists>fs. checkOpenAI p opts = Inr fs)
        \<and> (\<exists>fs. checkGoogle p opts = Inr fs)"
      by (simp add: checkAnthropic_def checkOpenAI_def checkGoogle_def getStablePrefixTokens_def Let_def)
    with Some False show ?thesis
      by (auto simp: checkProviderSpecific_def split: option.splits)
  qed
qed

text \<open>
  C1, amended. For every preset whose \<open>prompts\<close> or \<open>prompt_order\<close> is absent, a null
  preset included, \<open>analyze\<close> returns no findings, the score 100 and a summary of three
  zeros, without raising. (In this model, where the arrays hold well-formed elements and
  the tokenizer returns, \<open>analyze\<close> returns a result for every preset.)
\<close>

theorem analyze_absent_input:
  "(absent_input pre \<longrightarrow> analyze pre opts = Inr empty_result)
   \<and> (\<exists>r. analyze pre opts = Inr r)"
proof
  show "absent_input pre \<longrightarrow> analyze pre opts = Inr empty_result"
    by (simp add: analyze_def absent_no_findings calculateScore_def empty_result_def)
  obtain fs where "checkProviderSpecific pre opts = Inr fs"
    using checkProviderSpecific_returns by blast
  then show "\<exists>r. analyze pre opts = Inr r"
    by (simp add: analyze_def Let_def)
qed

theorem analyze_absent_input_witness:
  "analyze None no_options = Inr empty_result
   \<and> analyze (Some order_only_preset) no_options = Inr empty_result"
proof -
  have "absent_input None" and "absent_input (Some order_only_preset)"
    by (simp_all add: absent_input_def order_only_preset_def)
  then show ?thesis
    using analyze_absent_input [of None no_options]
      analyze_absent_input [of "Some order_only_preset" no_options]
    by blast
qed

text \<open>
  C1, as stated, also covers a \<open>prompts\<close> or \<open>prompt_order\<close> that is present and empty. An
  empty array passes the guards: for the preset with both arrays empty and default
  options the token-thresholds rule reports the empty stable prefix, and the score is 97;
  with \<open>prompts\<close> empty and three enabled order records led by \<open>chatHistory\<close>, the
  prompt-ordering rule reports a warning as well, and the score is 87.
\<close>

theorem analyze_empty_arrays_counterexample:
  "analyze (Some empty_preset) no_options =
     Inr \<lparr> findings = [thresholds_finding ''anthropic'' 0 1024], score = 97,
           summary = \<lparr> critical = 0, warning = 0, info = 1 \<rparr> \<rparr>
   \<and> severity (thresholds_finding ''anthropic'' 0 1024) = ''info''
   \<and> analyze (Some empty_preset) no_options \<noteq> Inr empty_result
   \<and> (case analyze (Some no_prompts_preset) no_options of
         Inl e \<Rightarrow> None
       | Inr r \<Rightarrow> Some (map severity (findings r), score r)) =
       Some ([''warning'', ''info''], 87)"
  by code_simp

subsection \<open>C2: the score\<close>

lemma foldl_score_step:
  "foldl score_step a fs =
     a - 20 * count_severity ''critical'' fs - 10 * count_severity ''warning'' fs
       - 3 * count_severity ''info'' fs"
  by (induction fs arbitrary: a) (simp_all add: score_step_def count_severity_def)

lemma count_severity_insert:
  "count_severity sev (xs @ ys) \<le> count_severity sev (xs @ f # ys)"
  by (simp add: count_severity_def)

lemma count_severity_nonneg: "0 \<le> count_severity sev fs"
  by (simp add: count_severity_def)

text \<open>
  C2. For every list of findings the score is
  \<open>max 0 (min 100 (100 - 20 * critical - 10 * warning - 3 * info))\<close>, where each count is the
  number of findings of that severity. Hence inserting a finding anywhere never
  increases the score, the empty list scores 100, a single critical finding scores 80,
  a single warning 90, a single info 97, and a list with five or more critical findings
  scores exactly 0.
\<close>

theorem calculateScore_formula:
  "calculateScore fs =
     max 0 (min 100 (100 - 20 * count_severity ''critical'' fs
                         - 10 * count_severity ''warning'' fs
                         - 3 * count_severity ''info'' fs))
   \<and> calculateScore (xs @ f # ys) \<le> calculateScore (xs @ ys)
   \<and> calculateScore [] = 100
   \<and> (severity f = ''critical'' \<longrightarrow> calculateScore [f] = 80)
   \<and> (severity f = ''warning'' \<longrightarrow> calculateScore [f] = 90)
   \<and> (severity f = ''info'' \<longrightarrow> calculateScore [f] = 97)
   \<and> (5 \<le> count_severity ''critical'' fs \<longrightarrow> calculateScore fs = 0)"
proof (intro conjI impI)
  show "calculateScore fs =
     max 0 (min 100 (100 - 20 * count_severity ''critical'' fs
                         - 10 * count_severity ''warning'' fs
                         - 3 * count_severity ''info'' fs))"
    by (simp add: calculateScore_def foldl_score_step)
next
  have "foldl score_step 100 (xs @ f # ys) \<le> foldl score_step 100 (xs @ ys)"
    unfolding foldl_score_step
    using count_severity_insert [of "''critical''" xs ys f]
      count_severity_insert [of "''warning''" xs ys f]
      count_severity_insert [of "''info''" xs ys f]
    by linarith
  then show "calculateScore (xs @ f # ys) \<le> calculateScore (xs @ ys)"
    unfolding calculateScore_def by linarith
next
  show "calculateScore [] = 100"
    by (simp add: calculateScore_def)
next
  assume "severity f = ''critical''"
  then show "calculateScore [f] = 80"
    by (simp add: calculateScore_def score_step_def)
next
  assume "severity f = ''warning''"
  then show "calculateScore [f] = 90"
    by (simp add: calculateScore_def score_step_def)
next
  assume "severity f = ''info''"
  then show "calculateScore [f] = 97"
    by (simp add: calculateScore_def score_step_def)
next
  assume "5 \<le> count_severity ''critical'' fs"
  then show "calculateScore fs = 0"
    unfolding calculateScore_def foldl_score_step
    using count_severity_nonneg [of "''warning''" fs] count_severity_nonneg [of "''info''" fs]
    by linarith
qed

theorem calculateScore_formula_witness:
  "calculateScore [sample_finding ''critical''] = 80
   \<and> calculateScore [sample_finding ''warning''] = 90
   \<and> calculateScore [sample_finding ''info''] = 97
   \<and> calculateScore (replicate 5 (sample_finding ''critical'') @ [sample_finding ''info'']) = 0
   \<and> calculateScore [sample_finding ''critical'', sample_finding ''critical'',
        sample_finding ''warning'', sample_finding ''info''] = 47"
proof -
  have c: "severity (sample_finding ''critical'') = ''critical''"
    and w: "severity (sample_finding ''warning'') = ''warning''"
    and i: "severity (sample_finding ''info'') = ''info''"
    by (simp_all add: sample_finding_def)
  have five: "5 \<le> count_severity ''critical''
      (replicate 5 (sample_finding ''critical'') @ [sample_finding ''info''])"
    by (simp add: count_severity_def sample_finding_def)
  have "calculateScore [sample_finding ''critical'', sample_finding ''critical'',
        sample_finding ''warning'', sample_finding ''info''] = 47"
    using calculateScore_formula [of "[sample_finding ''critical'', sample_finding ''critical'',
        sample_finding ''warning'', sample_finding ''info'']" "[]" "sample_finding ''info''" "[]"]
    by (simp add: count_severity_def sample_finding_def)
  then show ?thesis
    using calculateScore_formula [of "[]" "[]" "sample_finding ''critical''" "[]"] c
      calculateScore_formula [of "[]" "[]" "sample_finding ''warning''" "[]"] w
      calculateScore_formula [of "[]" "[]" "sample_finding ''info''" "[]"] i
      calculateScore_formula [of "replicate 5 (sample_finding ''critical'') @ [sample_finding ''info'']"
        "[]" "sample_finding ''info''" "[]"] five
    by blast
qed

subsection \<open>C3: the volatility classifier\<close>

text \<open>
  C3, as stated, asks for a complete marker \<open>{{name}}\<close> or \<open>{{name::args}}\<close>. The pattern
  does not look for the closing braces of the second form: the text \<open>{{random::\<close> holds no
  complete marker, and the classifier calls it volatile.
\<close>

theorem isVolatile_unclosed_counterexample:
  "isVolatile ''main'' (Some ''{{random::'') \<and> ''main'' \<noteq> ''chatHistory''
   \<and> ''main'' \<noteq> ''dialogueExamples'' \<and> \<not> contains_marker ''{{random::''"
  by code_simp

text \<open>
  C3, amended. Whatever \<open>lastIndex\<close> the pattern object holds on entry, \<open>isVolatile\<close> returns
  true if and only if the identifier is \<open>chatHistory\<close> or \<open>dialogueExamples\<close>, or the content
  holds, at some offset and in any case, \<open>{{name\<close> followed at once by \<open>}}\<close> or by \<open>::\<close> (closing
  braces after \<open>::\<close> are not required), for one of the nine dynamic macro names. So the
  result depends on the two arguments only. The deterministic macros \<open>{{char}}\<close>,
  \<open>{{user}}\<close>, \<open>{{getvar::x}}\<close>, \<open>{{setvar::x::1}}\<close> and a comment marker are not volatile.
\<close>

theorem isVolatile_characterisation:
  "(fst (isVolatile_st ident c lastIndex) \<longleftrightarrow>
      ident = ''chatHistory'' \<or> ident = ''dialogueExamples'' \<or>
      (\<exists>s. c = Some s \<and> contains_macro s))
   \<and> fst (isVolatile_st ident c lastIndex) = isVolatile ident c
   \<and> \<not> isVolatile ''main'' (Some ''{{char}}'')
   \<and> \<not> isVolatile ''main'' (Some ''{{user}}'')
   \<and> \<not> isVolatile ''main'' (Some ''{{getvar::x}}'')
   \<and> \<not> isVolatile ''main'' (Some ''{{setvar::x::1}}'')
   \<and> \<not> isVolatile ''main'' (Some ''{{// note}}'')"
proof (intro conjI)
  show "fst (isVolatile_st ident c lastIndex) \<longleftrightarrow>
      ident = ''chatHistory'' \<or> ident = ''dialogueExamples'' \<or>
      (\<exists>s. c = Some s \<and> contains_macro s)"
    by (rule isVolatile_st_iff)
  show "fst (isVolatile_st ident c lastIndex) = isVolatile ident c"
    unfolding isVolatile_def isVolatile_st_iff ..
  show "\<not> isVolatile ''main'' (Some ''{{char}}'')"
    by code_simp
  show "\<not> isVolatile ''main'' (Some ''{{user}}'')"
    by code_simp
  show "\<not> isVolatile ''main'' (Some ''{{getvar::x}}'')"
    by code_simp
  show "\<not> isVolatile ''main'' (Some ''{{setvar::x::1}}'')"
    by code_simp
  show "\<not> isVolatile ''main'' (Some ''{{// note}}'')"
    by code_simp
qed

subsection \<open>C4: macro placement\<close>

lemma match_here_shape:
  assumes "match_here t = Some (g, l)"
  shows "\<exists>n r. n \<in> set macro_names \<and> t = CHR ''{'' # CHR ''{'' # r \<and> name_matches r n
           \<and> l = length n + 4 \<and> g = take (length n) r"
proof -
  from assms have t2: "take 2 t = ''{{''"
    by (auto simp: match_here_def split: if_splits)
  then have t: "t = CHR ''{'' # CHR ''{'' # drop 2 t"
    by (metis append_Cons append_Nil append_take_drop_id)
  from assms t2 obtain n where n: "find (name_matches (drop 2 t)) macro_names = Some n"
    and l: "l = length n + 4" and g: "g = take (length n) (drop 2 t)"
    by (auto simp: match_here_def split: option.splits)
  from n have "n \<in> set macro_names" and "name_matches (drop 2 t) n"
    by (auto simp: find_Some_iff)
  with t l g show ?thesis by blast
qed

lemma name_chars_not_brace:
  "\<forall>n \<in> set macro_names. \<forall>x \<in> set n. canonicalize x \<noteq> CHR ''{''"
  by code_simp

lemma canonicalize_brace: "canonicalize (CHR ''{'') = CHR ''{''"
  by code_simp

lemma ci_prefix_nth:
  "ci_prefix n r \<Longrightarrow> j < length n \<Longrightarrow> canonicalize (r ! j) = canonicalize (n ! j)"
proof (induction n r arbitrary: j rule: ci_prefix.induct)
  case (1 s)
  then show ?case by simp
next
  case (2 p ps)
  then show ?case by simp
next
  case (3 p ps c cs)
  then show ?case by (cases j) auto
qed

lemma ci_prefix_length: "ci_prefix n r \<Longrightarrow> length n \<le> length r"
  by (induction n r rule: ci_prefix.induct) auto

lemma take2_nth:
  assumes "take 2 xs = [a, b]"
  shows "2 \<le> length xs \<and> xs ! 0 = a \<and> xs ! 1 = b"
proof -
  obtain ys where "xs = a # b # ys"
    using assms by (metis append_Cons append_Nil append_take_drop_id)
  then show ?thesis by simp
qed

lemma match_here_fits:
  assumes "match_here t = Some (g, l)"
  shows "l \<le> length t"
proof -
  from match_here_shape [OF assms] obtain n r where t: "t = CHR ''{'' # CHR ''{'' # r"
    and nm: "name_matches r n" and l: "l = length n + 4"
    by blast
  from nm have "length n \<le> length r" and "2 \<le> length (drop (length n) r)"
    using take2_nth [of "drop (length n) r"]
    by (auto simp: name_matches_def ci_prefix_length)
  with t l show ?thesis by simp
qed

lemma match_inner_no_brace:
  assumes "match_here t = Some (g, l)" and "2 \<le> d" and "d < l"
  shows "t ! d \<noteq> CHR ''{''"
proof -
  from match_here_shape [OF assms(1)] obtain n r where n: "n \<in> set macro_names"
    and t: "t = CHR ''{'' # CHR ''{'' # r" and nm: "name_matches r n" and l: "l = length n + 4"
    by blast
  define e where "e = d - 2"
  have d: "d = e + 2" and e: "e < length n + 2"
    using assms(2,3) l by (simp_all add: e_def)
  have td: "t ! d = r ! e"
    using t d by simp
  show ?thesis
  proof (cases "e < length n")
    case True
    from nm have "canonicalize (r ! e) = canonicalize (n ! e)"
      using True by (simp add: name_matches_def ci_prefix_nth)
    moreover have "canonicalize (n ! e) \<noteq> CHR ''{''"
      using name_chars_not_brace n True by (meson nth_mem)
    ultimately show ?thesis
      using td canonicalize_brace by metis
  next
    case False
    define k where "k = e - length n"
    have k: "e = length n + k" and k2: "k < 2"
      using False e by (simp_all add: k_def)
    from nm have tk: "take 2 (drop (length n) r) = ''::'' \<or> take 2 (drop (length n) r) = ''}}''"
      by (simp add: name_matches_def)
    have k01: "k = 0 \<or> k = 1"
      using k2 by arith
    have "2 \<le> length (drop (length n) r)"
      and "drop (length n) r ! k \<noteq> CHR ''{''"
      using tk k01 take2_nth [of "drop (length n) r"] by auto
    then have "r ! e \<noteq> CHR ''{''"
      using k by (simp add: add.commute)
    with td show ?thesis by simp
  qed
qed

lemma match_here_starts:
  assumes "match_here t \<noteq> None"
  shows "2 \<le> length t \<and> t ! 0 = CHR ''{'' \<and> t ! 1 = CHR ''{''"
proof -
  from assms have "take 2 t = ''{{''"
    by (auto simp: match_here_def split: if_splits)
  then show ?thesis
    using take2_nth [of t] by simp
qed

lemma no_overlap:
  assumes m: "match_here (drop p s) = Some (g, l)" and pq: "p < q" and ql: "q < p + l"
  shows "match_here (drop q s) = None"
proof (rule ccontr)
  assume "match_here (drop q s) \<noteq> None"
  from match_here_starts [OF this]
  have q1: "q + 1 < length s" and sq: "s ! q = CHR ''{''" and sq1: "s ! (q + 1) = CHR ''{''"
    by (auto simp: add.commute)
  from match_here_shape [OF m] have l4: "4 \<le> l" by auto
  from match_here_fits [OF m] l4 have fits: "p + l \<le> length s" by simp
  have inner: "s ! (p + d) \<noteq> CHR ''{''" if "2 \<le> d" "d < l" for d
    using match_inner_no_brace [OF m that] fits that by (simp add: add.commute)
  show False
  proof (cases "q = p + 1")
    case True
    then have "s ! (q + 1) = s ! (p + 2)" by (simp add: add.commute)
    with inner [of 2] l4 sq1 show ?thesis by simp
  next
    case False
    define d where "d = q - p"
    have "q = p + d" and "2 \<le> d" and "d < l"
      using False pq ql by (simp_all add: d_def)
    with inner [of d] sq show ?thesis by simp
  qed
qed

lemma search_Some:
  "search t p0 = Some (q, g, l) \<Longrightarrow>
     \<exists>k. q = p0 + k \<and> k < length t \<and> match_here (drop k t) = Some (g, l)
         \<and> (\<forall>j < k. match_here (drop j t) = None)"
proof (induction t arbitrary: p0)
  case Nil
  then show ?case by simp
next
  case (Cons c cs)
  show ?case
  proof (cases "match_here (c # cs)")
    case None
    with Cons.prems have "search cs (Suc p0) = Some (q, g, l)" by simp
    from Cons.IH [OF this] obtain k where k: "q = Suc p0 + k" "k < length cs"
      "match_here (drop k cs) = Some (g, l)" "\<forall>j < k. match_here (drop j cs) = None"
      by blast
    have "\<forall>j < Suc k. match_here (drop j (c # cs)) = None"
      using None k(4) by (auto simp: less_Suc_eq_0_disj)
    with k show ?thesis
      by (intro exI [of _ "Suc k"]) simp
  next
    case (Some a)
    with Cons.prems have "q = p0" "a = (g, l)" by (auto split: prod.splits)
    with Some show ?thesis
      by (intro exI [of _ 0]) simp
  qed
qed

lemma upt_split: "a \<le> b \<Longrightarrow> b \<le> c \<Longrightarrow> [a..<c] = [a..<b] @ [b..<c]"
  using upt_add_eq_append [of a b "c - b"] by simp

lemma filter_upt_none:
  "(\<And>q. a \<le> q \<Longrightarrow> q < b \<Longrightarrow> \<not> P q) \<Longrightarrow> filter P [a..<b] = []"
  by (simp add: filter_empty_conv)

lemma exec_loop_length:
  "length (exec_loop s li) = length (filter (macro_at s) [li..<length s])"
proof (induction s li rule: exec_loop.induct)
  case (1 s li)
  show ?case
  proof (cases "regex_exec s li")
    case (Pair m li')
    show ?thesis
    proof (cases m)
      case None
      have "\<not> macro_at s q" if "li \<le> q" "q < length s" for q
      proof -
        from that have le: "\<not> length s < li" by simp
        with Pair None have "search (drop li s) li = None"
          by (auto simp: regex_exec_def split: option.splits)
        then have "\<forall>k < length (drop li s). match_here (drop k (drop li s)) = None"
          by (simp only: search_None_iff)
        moreover have "q - li < length (drop li s)" and "drop (q - li) (drop li s) = drop q s"
          using that by simp_all
        ultimately have "match_here (drop q s) = None"
          by metis
        then show ?thesis
          using match_here_iff [of q s] by simp
      qed
      then have "filter (macro_at s) [li..<length s] = []"
        by (rule filter_upt_none)
      with Pair None show ?thesis
        by (simp add: exec_loop.simps [of s li])
    next
      case (Some g)
      from Pair Some have le: "li \<le> length s"
        by (auto simp: regex_exec_def split: if_splits)
      with Pair Some obtain p l where sr: "search (drop li s) li = Some (p, g, l)"
        and li': "li' = p + l"
        by (auto simp: regex_exec_def split: option.splits)
      from search_Some [OF sr] obtain k where k: "p = li + k" "k < length s - li"
        and mk: "match_here (drop p s) = Some (g, l)"
        and before: "\<forall>j < k. match_here (drop (li + j) s) = None"
        by (auto simp: add.commute)
      from match_here_shape [OF mk] have l4: "4 \<le> l" by auto
      from match_here_fits [OF mk] l4 have fits: "p + l \<le> length s" by simp
      have IH: "length (exec_loop s li') = length (filter (macro_at s) [li'..<length s])"
        using 1 [of m li' g] Pair Some by simp
      have split: "[li..<length s] = [li..<p] @ [p] @ [Suc p..<p + l] @ [p + l..<length s]"
      proof -
        have "[li..<length s] = [li..<p] @ [p..<length s]"
          by (rule upt_split) (use k fits in simp_all)
        moreover have "[p..<length s] = p # [Suc p..<length s]"
          using fits l4 by (simp add: upt_conv_Cons)
        moreover have "[Suc p..<length s] = [Suc p..<p + l] @ [p + l..<length s]"
          by (rule upt_split) (use fits l4 in simp_all)
        ultimately show ?thesis by simp
      qed
      have f1: "filter (macro_at s) [li..<p] = []"
      proof (rule filter_upt_none)
        fix q assume "li \<le> q" "q < p"
        then have "q - li < k" "li + (q - li) = q" using k by simp_all
        with before have "match_here (drop q s) = None" by metis
        then show "\<not> macro_at s q" using match_here_iff [of q s] by simp
      qed
      have f2: "filter (macro_at s) [Suc p..<p + l] = []"
      proof (rule filter_upt_none)
        fix q assume "Suc p \<le> q" "q < p + l"
        then have "match_here (drop q s) = None"
          using no_overlap [OF mk, of q] by simp
        then show "\<not> macro_at s q" using match_here_iff [of q s] by simp
      qed
      have f3: "macro_at s p"
        using mk match_here_iff [of p s] by simp
      have "length (filter (macro_at s) [li..<length s]) =
            Suc (length (filter (macro_at s) [p + l..<length s]))"
        unfolding split by (simp add: f1 f2 f3)
      with IH li' Pair Some show ?thesis
        by (simp add: exec_loop.simps [of s li])
    qed
  qed
qed

lemma exec_loop_occurrences: "length (exec_loop s 0) = length (macro_occurrences s)"
  by (simp add: exec_loop_length macro_occurrences_def)

lemma macro_occurrences_Nil: "macro_occurrences [] = []"
  by (simp add: macro_occurrences_def)

lemma match_findings_grades:
  "map (\<lambda>f. (finding_position f, severity f)) (match_findings entry p i n k ms) =
     map (\<lambda>_. (Some i, placement_severity i n)) ms"
  by (induction ms arbitrary: k)
     (simp_all add: placement_finding_def finding_position_def Let_def)

lemma const_map_length: "length xs = length ys \<Longrightarrow> map (\<lambda>_. c) xs = map (\<lambda>_. c) ys"
  by (simp add: map_replicate_const)

lemma placement_loop_grades:
  "map (\<lambda>f. (finding_position f, severity f)) (placement_loop (promptMap ps) n i es) =
     concat (map (\<lambda>(j, e). map (\<lambda>_. (Some j, placement_severity j n))
                    (macro_occurrences (entry_text ps (entry_identifier e))))
               (enumerate i es))"
proof (induction es arbitrary: i)
  case Nil
  show ?case by simp
next
  case (Cons e es)
  have t: "entry_text ps (entry_identifier e) =
      str_of (content_of (get_prompt (promptMap ps) (entry_identifier e)))"
    by (simp add: content_text)
  show ?case
  proof (cases "get_prompt (promptMap ps) (entry_identifier e)")
    case Absent
    with Cons show ?thesis
      by (simp add: t macro_occurrences_Nil content_of_def str_of_def)
  next
    case (Foreign nm)
    with Cons show ?thesis
      by (simp add: t macro_occurrences_Nil content_of_def str_of_def)
  next
    case (Entry q)
    show ?thesis
    proof (cases "content q")
      case None
      with Entry Cons show ?thesis
        by (simp add: t macro_occurrences_Nil content_of_def str_of_def)
    next
      case (Some s)
      note c = this
      show ?thesis
      proof (cases "s = []")
        case True
        with c Entry Cons show ?thesis
          by (simp add: t macro_occurrences_Nil content_of_def str_of_def)
      next
        case False
        have "map (\<lambda>_. (Some i, placement_severity i n)) (exec_loop s 0) =
              map (\<lambda>_. (Some i, placement_severity i n)) (macro_occurrences s)"
          by (rule const_map_length) (rule exec_loop_occurrences)
        with False c Entry Cons show ?thesis
          by (simp add: t match_findings_grades content_of_def str_of_def)
      qed
    qed
  qed
qed

lemma checkMacroPlacement_eq:
  "map (\<lambda>f. (finding_position f, severity f)) (checkMacroPlacement pre opts) =
     concat (map (\<lambda>(i, e). map (\<lambda>_. (Some i, placement_severity i (length (effective_sequence pre))))
                    (macro_occurrences (entry_content pre e)))
               (enumerate 0 (effective_sequence pre)))"
proof (cases pre)
  case None
  then show ?thesis
    by (simp add: checkMacroPlacement_def effective_sequence_def)
next
  case (Some p)
  show ?thesis
  proof (cases "prompt_order p")
    case None
    with Some show ?thesis
      by (simp add: checkMacroPlacement_def effective_sequence_def split: option.splits)
  next
    case po: (Some po)
    have es: "effective_sequence (Some p) = enabledEntries po"
      using po by (simp add: effective_sequence_loaded)
    show ?thesis
    proof (cases "prompts p")
      case None
      have "concat (map (\<lambda>(i, e). map (\<lambda>_. (Some i, placement_severity i m))
                 (macro_occurrences [])) xs) = []" for xs :: "(nat \<times> order_record) list" and m
        by (induction xs) (auto simp: macro_occurrences_Nil)
      with None Some po show ?thesis
        by (simp add: checkMacroPlacement_def es entry_content_def entry_prompt_def)
    next
      case ps: (Some ps)
      have ec: "entry_content (Some p) e = entry_text ps (entry_identifier e)" for e
        using ps by (simp add: entry_content_def entry_prompt_def entry_text_def)
      show ?thesis
      proof (cases "enabledEntries po = []")
        case True
        with Some po ps show ?thesis
          by (simp add: checkMacroPlacement_def es)
      next
        case False
        with Some po ps show ?thesis
          by (simp add: checkMacroPlacement_def es placement_loop_grades ec)
      qed
    qed
  qed
qed

text \<open>
  C4. The findings of \<open>checkMacroPlacement\<close> are, in order, one for each occurrence of a
  dynamic macro in the content of each entry of the effective ordered sequence; the
  finding of an occurrence in the entry at index \<open>i\<close> of \<open>n\<close> entries records position \<open>i\<close>
  and has severity critical when \<open>i = 0\<close>, warning when \<open>i > 0\<close> and \<open>i / n < 0.4\<close>, and info
  otherwise. So a macro at a fraction of 0.4 or more is info, never critical.
\<close>

theorem checkMacroPlacement_grades:
  "map (\<lambda>f. (finding_position f, severity f)) (checkMacroPlacement pre opts) =
     concat (map (\<lambda>(i, e). map (\<lambda>_. (Some i, placement_severity i (length (effective_sequence pre))))
                    (macro_occurrences (entry_content pre e)))
               (enumerate 0 (effective_sequence pre)))
   \<and> placement_severity 0 n = ''critical''
   \<and> (0 < i \<and> real i / real n < 4 / 10 \<longrightarrow> placement_severity i n = ''warning'')
   \<and> (0 < i \<and> 4 / 10 \<le> real i / real n \<longrightarrow> placement_severity i n = ''info'')
   \<and> (4 / 10 \<le> real i / real n \<longrightarrow> placement_severity i n = ''info'')"
proof (intro conjI)
  show "map (\<lambda>f. (finding_position f, severity f)) (checkMacroPlacement pre opts) =
     concat (map (\<lambda>(i, e). map (\<lambda>_. (Some i, placement_severity i (length (effective_sequence pre))))
                    (macro_occurrences (entry_content pre e)))
               (enumerate 0 (effective_sequence pre)))"
    by (rule checkMacroPlacement_eq)
  show "placement_severity 0 n = ''critical''"
    by (simp add: placement_severity_def)
  show "0 < i \<and> real i / real n < 4 / 10 \<longrightarrow> placement_severity i n = ''warning''"
    by (simp add: placement_severity_def)
  show "0 < i \<and> 4 / 10 \<le> real i / real n \<longrightarrow> placement_severity i n = ''info''"
    by (simp add: placement_severity_def)
  show "4 / 10 \<le> real i / real n \<longrightarrow> placement_severity i n = ''info''"
    by (cases "i = 0") (simp_all add: placement_severity_def)
qed

theorem checkMacroPlacement_grades_witness:
  "map (\<lambda>f. (finding_position f, severity f)) (checkMacroPlacement (Some macro_preset) no_options) =
     [(Some 0, ''critical''), (Some 1, ''warning''), (Some 2, ''info''), (Some 2, ''info'')]
   \<and> placement_severity 1 3 = ''warning''
   \<and> placement_severity 2 5 = ''info''"
proof -
  have "concat (map (\<lambda>(i, e). map (\<lambda>_. (Some i, placement_severity i (length (effective_sequence (Some macro_preset)))))
                    (macro_occurrences (entry_content (Some macro_preset) e)))
               (enumerate 0 (effective_sequence (Some macro_preset)))) =
        [(Some 0, ''critical''), (Some 1, ''warning''), (Some 2, ''info''), (Some 2, ''info'')]"
    by code_simp
  moreover have "map (\<lambda>f. (finding_position f, severity f))
          (checkMacroPlacement (Some macro_preset) no_options) =
        [(Some 0, ''critical''), (Some 1, ''warning''), (Some 2, ''info''), (Some 2, ''info'')]"
    by code_simp
  moreover have "0 < (1::nat) \<and> real 1 / real 3 < 4 / 10" and "(4::real) / 10 \<le> real 2 / real 5"
    by simp_all
  ultimately show ?thesis
    using checkMacroPlacement_grades [of "Some macro_preset" no_options 3 1]
      checkMacroPlacement_grades [of "Some macro_preset" no_options 5 2]
    by simp
qed

subsection \<open>C5: prompt ordering\<close>












subsection \<open>C6: token thresholds\<close>

lemma threshold_of_provider:
  assumes "or_else pv ''anthropic'' \<noteq> ''__proto__''"
    and "map_of object_prototype (or_else pv ''anthropic'') = None"
  shows "threshold_of (or_else pv ''anthropic'') = Number (provider_threshold pv)"
proof -
  define k where "k = or_else pv ''anthropic''"
  have k: "k \<noteq> ''__proto__''" "map_of object_prototype k = None"
    using assms by (simp_all add: k_def)
  consider "pv = None" | "pv = Some []" | "pv = Some k" "k \<noteq> []"
    by (cases pv) (auto simp: k_def or_else_def)
  then have "threshold_of k = Number (provider_threshold pv)"
  proof cases
    case 1
    then have "k = ''anthropic''"
      by (simp add: k_def or_else_def)
    with 1 show ?thesis
      by (simp add: threshold_of_def provider_threshold_def THRESHOLDS_def
          anthropic_threshold_def)
  next
    case 2
    then have "k = ''anthropic''"
      by (simp add: k_def or_else_def)
    with 2 show ?thesis
      by (simp add: threshold_of_def provider_threshold_def THRESHOLDS_def
          anthropic_threshold_def)
  next
    case 3
    with k show ?thesis
      by (simp add: threshold_of_def provider_threshold_def THRESHOLDS_def
          anthropic_threshold_def)
  qed
  then show ?thesis
    by (simp add: k_def)
qed

lemma checkTokenThresholds_eq:
  "checkTokenThresholds pre opts =
     (case loaded pre of
        None \<Rightarrow> []
      | Some (ps, po) \<Rightarrow>
          (case threshold_of (or_else (provider opts) ''anthropic'') of
             Number threshold \<Rightarrow>
               if threshold \<le> tokenizer_of opts (stable_prefix ps po) then []
               else [thresholds_finding (or_else (provider opts) ''anthropic'')
                       (tokenizer_of opts (stable_prefix ps po)) threshold]
           | Inherited k \<Rightarrow>
               [thresholds_inherited_finding (or_else (provider opts) ''anthropic'')
                  (tokenizer_of opts (stable_prefix ps po)) k]))"
proof (cases "loaded pre")
  case None
  then have "absent_input pre"
    by (simp add: loaded_None_iff)
  with None show ?thesis
    by (simp add: absent_no_findings)
next
  case (Some a)
  then obtain p ps po where pre: "pre = Some p" "prompts p = Some ps" "prompt_order p = Some po"
    and a: "a = (ps, po)"
    by (rule loaded_SomeE)
  with Some show ?thesis
    by (simp add: checkTokenThresholds_def Let_def thresholds_estimate_eq)
qed

text \<open>
  For a provider option that is absent or names no property of \<open>Object.prototype\<close> the rule
  does what the specification says: the threshold is 1024 for provider anthropic or
  openai, 4096 for google and 1024 otherwise; an estimate at or above it gives no finding,
  a lower one exactly one finding, of severity warning when estimate / threshold is at
  least 0.9 and info otherwise, whose meta data hold the estimate, the threshold, the
  deficit and the ratio; without a tokenizer option the estimate is the character length
  divided by 4, rounded up.
\<close>

lemma checkTokenThresholds_recognised:
  assumes "or_else (provider opts) ''anthropic'' \<noteq> ''__proto__''"
    and "map_of object_prototype (or_else (provider opts) ''anthropic'') = None"
  shows "checkTokenThresholds pre opts =
     (case loaded pre of
        None \<Rightarrow> []
      | Some (ps, po) \<Rightarrow>
          if provider_threshold (provider opts) \<le> tokenizer_of opts (stable_prefix ps po) then []
          else [thresholds_finding (or_else (provider opts) ''anthropic'')
                  (tokenizer_of opts (stable_prefix ps po)) (provider_threshold (provider opts))])"
  unfolding checkTokenThresholds_eq threshold_of_provider [OF assms] threshold_value.case
  by (rule refl)

lemma provider_threshold_values:
  "provider_threshold (Some ''anthropic'') = 1024"
  "provider_threshold (Some ''openai'') = 1024"
  "provider_threshold (Some ''google'') = 4096"
  "provider_threshold None = 1024"
  "pv \<noteq> Some ''anthropic'' \<and> pv \<noteq> Some ''openai'' \<and> pv \<noteq> Some ''google''
     \<longrightarrow> provider_threshold pv = 1024"
  by (simp_all add: provider_threshold_def)

lemma thresholds_finding_fields:
  "severity (thresholds_finding nm est thr) =
     (if 9 / 10 \<le> real_of_int est / real_of_int thr then ''warning'' else ''info'')"
  "meta (thresholds_finding nm est thr) =
     TokenThresholdsMeta est thr (thr - est) (real_of_int est / real_of_int thr)"
  by (simp_all add: thresholds_finding_def thresholds_severity_def Let_def)

lemma tokenizer_default:
  "tokenizer opts = None \<Longrightarrow> tokenizer_of opts str = \<lceil>real (length str) / 4\<rceil>"
  by (simp add: tokenizer_of_def defaultTokenizer_def)

lemma loaded_scenario_b: "loaded (Some scenario_b) = Some (scenario_b_prompts, scenario_b_order)"
  by (simp add: loaded_def scenario_b_def)

lemma checkTokenThresholds_samples:
  "checkTokenThresholds (Some scenario_b) (fixed_tokenizer 1024) = []
   \<and> map severity (checkTokenThresholds (Some scenario_b) (fixed_tokenizer 1023)) = [''warning'']
   \<and> map severity (checkTokenThresholds (Some scenario_b) (fixed_tokenizer 922)) = [''warning'']
   \<and> map severity (checkTokenThresholds (Some scenario_b) (fixed_tokenizer 921)) = [''info'']
   \<and> map meta (checkTokenThresholds (Some scenario_b) no_options) =
        [TokenThresholdsMeta 16 1024 1008 (16 / 1024)]
   \<and> tokenizer_of no_options ''abcde'' = 2"
proof -
  have pv: "provider (fixed_tokenizer n) = None" and tk: "tokenizer_of (fixed_tokenizer n) str = n"
    for n str
    by (simp_all add: fixed_tokenizer_def tokenizer_of_def)
  have np: "provider no_options = None" and nt: "tokenizer no_options = None"
    by (simp_all add: no_options_def)
  have r: "or_else None ''anthropic'' \<noteq> ''__proto__''"
    "map_of object_prototype (or_else None ''anthropic'') = None"
    by (simp_all add: or_else_def object_prototype_def)
  have est: "tokenizer_of no_options (stable_prefix scenario_b_prompts scenario_b_order) = 16"
    by code_simp
  have len: "\<lceil>real (length ''abcde'') / 4\<rceil> = 2"
    by simp
  note inst = checkTokenThresholds_recognised [where pre = "Some scenario_b"]
  show ?thesis
    using inst [of "fixed_tokenizer 1024"] inst [of "fixed_tokenizer 1023"]
      inst [of "fixed_tokenizer 922"] inst [of "fixed_tokenizer 921"]
      inst [of no_options] tokenizer_default [of no_options "''abcde''"]
      loaded_scenario_b pv tk np nt r est len
    by (simp add: or_else_def provider_threshold_def thresholds_finding_fields)
qed

text \<open>
  C6. The threshold for a provider option that is not recognised is not always the
  anthropic one. \<open>THRESHOLDS[provider] || THRESHOLDS.anthropic\<close> falls back only when the
  lookup is falsy, and for a provider string that names a property of \<open>Object.prototype\<close>
  it is not: with provider \<open>constructor\<close> the threshold is the inherited function, no
  estimate is at or above it, and a finding of severity info is produced for an estimate
  of 2000 tokens, which is above the anthropic threshold of 1024. The meta data of that
  finding hold no numeric threshold. Another provider that is not recognised,
  \<open>mistral\<close>, is given the threshold 1024: the same estimate yields no finding, and an
  estimate of 1023 yields one with threshold 1024.
\<close>

theorem checkTokenThresholds_inherited_provider:
  "threshold_of ''constructor'' = Inherited ''constructor''
   \<and> map (\<lambda>f. (severity f, meta f))
       (checkTokenThresholds (Some scenario_b) (provider_tokens ''constructor'' 2000)) =
       [(''info'', TokenThresholdsInheritedMeta 2000 ''constructor'')]
   \<and> threshold_of ''mistral'' = Number 1024
   \<and> checkTokenThresholds (Some scenario_b) (provider_tokens ''mistral'' 2000) = []
   \<and> map (\<lambda>f. (severity f, meta f))
       (checkTokenThresholds (Some scenario_b) (provider_tokens ''mistral'' 1023)) =
       [(''warning'', TokenThresholdsMeta 1023 1024 1 (1023 / 1024))]"
proof -
  have c: "threshold_of ''constructor'' = Inherited ''constructor''"
    and m: "threshold_of ''mistral'' = Number 1024"
    by (simp_all add: threshold_of_def THRESHOLDS_def object_prototype_def
        anthropic_threshold_def)
  have o: "or_else (provider (provider_tokens pv n)) ''anthropic'' = (if pv = [] then ''anthropic'' else pv)"
    and t: "tokenizer_of (provider_tokens pv n) str = n" for pv n str
    by (simp_all add: provider_tokens_def or_else_def tokenizer_of_def)
  show ?thesis
    by (simp add: checkTokenThresholds_eq loaded_scenario_b o t c m
        thresholds_inherited_finding_def thresholds_finding_def thresholds_severity_def Let_def)
qed

subsection \<open>C7: injection depth\<close>

lemma depth_loop_eq:
  "depth_loop (set (map entry_identifier (effective_sequence pre))) ps =
     concat (map (depth_contribution pre) ps)"
proof (induction ps)
  case Nil
  show ?case by simp
next
  case (Cons q ps)
  show ?case
  proof (cases "enabled q \<and> in_sequence pre (identifier q) \<and> injection_position q = Some 1")
    case True
    with Cons show ?thesis
      by (cases "injection_depth q")
         (simp_all add: depth_contribution_def in_sequence_def not_le)
  next
    case False
    with Cons show ?thesis
      by (cases "injection_position q")
         (auto simp: depth_contribution_def in_sequence_def)
  qed
qed

lemma checkInjectionDepth_eq:
  "checkInjectionDepth pre opts = concat (map (depth_contribution pre) (preset_prompts pre))"
proof (cases "loaded pre")
  case None
  then have "absent_input pre"
    by (simp add: loaded_None_iff)
  moreover have "concat (map (depth_contribution pre) ps) = []"
    if "effective_sequence pre = []" for ps
    using that by (induction ps) (simp_all add: depth_contribution_def in_sequence_def)
  ultimately show ?thesis
    by (cases pre)
       (auto simp: absent_no_findings absent_input_def preset_prompts_def effective_sequence_def)
next
  case (Some a)
  then obtain p ps po where pre: "pre = Some p" "prompts p = Some ps" "prompt_order p = Some po"
    and a: "a = (ps, po)"
    by (rule loaded_SomeE)
  have "effective_sequence pre = enabledEntries po" and "preset_prompts pre = ps"
    using pre by (simp_all add: effective_sequence_loaded preset_prompts_def)
  then show ?thesis
    using pre depth_loop_eq [of pre ps] by (simp add: checkInjectionDepth_def)
qed

text \<open>
  C7. The findings of \<open>checkInjectionDepth\<close> are the contributions of the prompt entries,
  in order: exactly one finding for an entry that is enabled, whose identifier is an
  enabled record of the effective ordered sequence (the enabled records of the first
  wrapper for a nested \<open>prompt_order\<close>, of the list itself for a flat one), whose
  \<open>injection_position\<close> is 1 and
  whose \<open>injection_depth\<close> is present and below 4; nothing for any other entry, whatever
  its content. The severity is critical at depth 1 or less with a dynamic macro in the
  content, warning at depth 1 or less without, warning at depth 2 to 3 with, and info at
  depth 2 to 3 without.
\<close>

theorem checkInjectionDepth_findings:
  "checkInjectionDepth pre opts = concat (map (depth_contribution pre) (preset_prompts pre))
   \<and> (\<not> enabled q \<or> \<not> in_sequence pre (identifier q) \<or> injection_position q \<noteq> Some 1
        \<or> injection_depth q = None \<or> (\<exists>d. injection_depth q = Some d \<and> 4 \<le> d)
        \<longrightarrow> depth_contribution pre q = [])
   \<and> (enabled q \<and> in_sequence pre (identifier q) \<and> injection_position q = Some 1
        \<and> injection_depth q = Some d \<and> d < 4
        \<longrightarrow> depth_contribution pre q = [depth_finding q 1 d])
   \<and> severity (depth_finding q pos d) =
        (if d \<le> 1 then (if contains_macro (str_of (content q)) then ''critical'' else ''warning'')
         else (if contains_macro (str_of (content q)) then ''warning'' else ''info''))
   \<and> affectedEntry (depth_finding q pos d) = identifier q
   \<and> meta (depth_finding q pos d) = InjectionDepthMeta d pos (contains_macro (str_of (content q)))"
proof (intro conjI)
  show "checkInjectionDepth pre opts = concat (map (depth_contribution pre) (preset_prompts pre))"
    by (rule checkInjectionDepth_eq)
  show "\<not> enabled q \<or> \<not> in_sequence pre (identifier q) \<or> injection_position q \<noteq> Some 1
        \<or> injection_depth q = None \<or> (\<exists>d. injection_depth q = Some d \<and> 4 \<le> d)
        \<longrightarrow> depth_contribution pre q = []"
    by (auto simp: depth_contribution_def)
  show "enabled q \<and> in_sequence pre (identifier q) \<and> injection_position q = Some 1
        \<and> injection_depth q = Some d \<and> d < 4
        \<longrightarrow> depth_contribution pre q = [depth_finding q 1 d]"
    by (simp add: depth_contribution_def)
  show "severity (depth_finding q pos d) =
        (if d \<le> 1 then (if contains_macro (str_of (content q)) then ''critical'' else ''warning'')
         else (if contains_macro (str_of (content q)) then ''warning'' else ''info''))"
    by (simp add: depth_finding_def depth_severity_def Let_def hasDynamicMacros_iff)
  show "affectedEntry (depth_finding q pos d) = identifier q"
    by (simp add: depth_finding_def Let_def)
  show "meta (depth_finding q pos d) = InjectionDepthMeta d pos (contains_macro (str_of (content q)))"
    by (simp add: depth_finding_def Let_def hasDynamicMacros_iff)
qed

theorem checkInjectionDepth_findings_witness:
  "map (\<lambda>f. (affectedEntry f, severity f)) (checkInjectionDepth (Some depth_preset) no_options) =
     [(''a'', ''critical''), (''b'', ''warning''), (''c'', ''warning''), (''d'', ''info'')]
   \<and> map (\<lambda>f. (affectedEntry f, severity f)) (checkInjectionDepth (Some depth_flat) no_options) =
     [(''x'', ''warning''), (''w'', ''warning'')]
   \<and> in_sequence (Some depth_preset) ''g'' \<and> \<not> in_sequence (Some depth_preset) ''h''
   \<and> in_sequence (Some depth_flat) ''z'' \<and> \<not> in_sequence (Some depth_flat) ''y''
   \<and> depth_contribution (Some depth_preset) (injected ''e'' ''Deep {{random}}'' (Some 1) (Some 4)) = []
   \<and> depth_contribution (Some depth_preset) (injected ''h'' ''Not in order {{random}}'' (Some 1) (Some 0)) = []
   \<and> depth_contribution (Some depth_preset) (injected ''b'' ''Stay calm.'' (Some 1) (Some 1)) =
       [depth_finding (injected ''b'' ''Stay calm.'' (Some 1) (Some 1)) 1 1]"
proof -
  have "map (\<lambda>f. (affectedEntry f, severity f))
          (concat (map (depth_contribution (Some depth_preset)) (preset_prompts (Some depth_preset)))) =
     [(''a'', ''critical''), (''b'', ''warning''), (''c'', ''warning''), (''d'', ''info'')]"
    by code_simp
  moreover have "map (\<lambda>f. (affectedEntry f, severity f))
          (concat (map (depth_contribution (Some depth_flat)) (preset_prompts (Some depth_flat)))) =
     [(''x'', ''warning''), (''w'', ''warning'')]"
    by code_simp
  moreover have "map (\<lambda>f. (affectedEntry f, severity f))
          (checkInjectionDepth (Some depth_preset) no_options) =
     [(''a'', ''critical''), (''b'', ''warning''), (''c'', ''warning''), (''d'', ''info'')]"
    "map (\<lambda>f. (affectedEntry f, severity f)) (checkInjectionDepth (Some depth_flat) no_options) =
     [(''x'', ''warning''), (''w'', ''warning'')]"
    by code_simp+
  moreover have "in_sequence (Some depth_preset) ''g''" "\<not> in_sequence (Some depth_preset) ''h''"
    "in_sequence (Some depth_flat) ''z''" "\<not> in_sequence (Some depth_flat) ''y''"
    by code_simp+
  moreover have "\<exists>d. injection_depth (injected ''e'' ''Deep {{random}}'' (Some 1) (Some 4)) = Some d
      \<and> 4 \<le> d"
    by (simp add: injected_def)
  moreover have "\<not> in_sequence (Some depth_preset)
      (identifier (injected ''h'' ''Not in order {{random}}'' (Some 1) (Some 0)))"
    by code_simp
  moreover have "enabled (injected ''b'' ''Stay calm.'' (Some 1) (Some 1))
      \<and> in_sequence (Some depth_preset) (identifier (injected ''b'' ''Stay calm.'' (Some 1) (Some 1)))
      \<and> injection_position (injected ''b'' ''Stay calm.'' (Some 1) (Some 1)) = Some 1
      \<and> injection_depth (injected ''b'' ''Stay calm.'' (Some 1) (Some 1)) = Some 1 \<and> (1::int) < 4"
    by code_simp
  ultimately show ?thesis
    using checkInjectionDepth_findings [of "Some depth_preset" no_options
        "injected ''e'' ''Deep {{random}}'' (Some 1) (Some 4)"]
      checkInjectionDepth_findings [of "Some depth_preset" no_options
        "injected ''h'' ''Not in order {{random}}'' (Some 1) (Some 0)"]
      checkInjectionDepth_findings [of "Some depth_preset" no_options
        "injected ''b'' ''Stay calm.'' (Some 1) (Some 1)" 1]
      checkInjectionDepth_findings [of "Some depth_flat" no_options]
    by simp
qed

subsection \<open>C8: provider dispatch and the anthropic check\<close>

lemma system_prompt_count_absent: "absent_input pre \<Longrightarrow> system_prompt_count pre = 0"
  by (cases pre)
     (auto simp: absent_input_def system_prompt_count_def preset_prompts_def in_sequence_def
        effective_sequence_def)

lemma system_prompt_count_loaded:
  assumes "pre = Some p" and "prompts p = Some ps" and "prompt_order p = Some po"
  shows "system_prompt_count pre = length (systemPrompts ps po)"
  using assms
  by (simp add: system_prompt_count_def systemPrompts_def preset_prompts_def in_sequence_def
      effective_sequence_loaded)

lemma checkProviderSpecific_anthropic:
  assumes "provider opts = Some ''anthropic''"
  shows "checkProviderSpecific pre opts =
     Inr (if 1 < system_prompt_count pre then
            [if squash_enabled pre then squash_on_finding (system_prompt_count pre)
             else squash_off_finding (system_prompt_count pre)]
          else [])"
proof (cases "loaded pre")
  case None
  then have "absent_input pre"
    by (simp add: loaded_None_iff)
  then show ?thesis
    by (simp add: absent_no_findings system_prompt_count_absent)
next
  case (Some a)
  then obtain p ps po where pre: "pre = Some p" "prompts p = Some ps" "prompt_order p = Some po"
    and a: "a = (ps, po)"
    by (rule loaded_SomeE)
  have "checkProviderSpecific (Some p) opts = checkAnthropic p opts"
    using pre assms by (simp add: checkProviderSpecific_def)
  moreover have "squash_enabled pre = squash_system_messages p"
    using pre by (simp add: squash_enabled_def)
  ultimately show ?thesis
    using pre system_prompt_count_loaded [OF pre]
    by (simp add: checkAnthropic_def)
qed

lemma checkProviderSpecific_other:
  assumes "provider opts = None \<or>
           (\<exists>s. provider opts = Some s \<and> s \<noteq> ''anthropic'' \<and> s \<noteq> ''openai'' \<and> s \<noteq> ''google'')"
  shows "checkProviderSpecific pre opts = Inr []"
proof (cases "loaded pre")
  case None
  then have "absent_input pre"
    by (simp add: loaded_None_iff)
  then show ?thesis
    by (simp add: absent_no_findings)
next
  case (Some a)
  then obtain p ps po where pre: "pre = Some p" "prompts p = Some ps" "prompt_order p = Some po"
    by (rule loaded_SomeE)
  from assms show ?thesis
  proof
    assume "provider opts = None"
    with pre show ?thesis by (simp add: checkProviderSpecific_def)
  next
    assume "\<exists>s. provider opts = Some s \<and> s \<noteq> ''anthropic'' \<and> s \<noteq> ''openai'' \<and> s \<noteq> ''google''"
    then obtain s where "provider opts = Some s" "s \<noteq> ''anthropic''" "s \<noteq> ''openai''"
      "s \<noteq> ''google''"
      by blast
    with pre show ?thesis by (simp add: checkProviderSpecific_def)
  qed
qed

text \<open>
  C8. \<open>checkProviderSpecific\<close> returns no finding when the provider option is absent or
  is a string other than \<open>anthropic\<close>, \<open>openai\<close> and \<open>google\<close>. For provider \<open>anthropic\<close>,
  when more than one enabled prompt entry whose identifier is an enabled record of the
  effective ordered sequence has role \<open>system\<close> it returns exactly one finding, of severity info when \<open>squash_system_messages\<close> is true and warning
  otherwise; with at most one such entry it returns none.
\<close>

theorem checkProviderSpecific_dispatch:
  "(provider opts = None \<or>
    (\<exists>s. provider opts = Some s \<and> s \<noteq> ''anthropic'' \<and> s \<noteq> ''openai'' \<and> s \<noteq> ''google'')
      \<longrightarrow> checkProviderSpecific pre opts = Inr [])
   \<and> (provider opts = Some ''anthropic'' \<longrightarrow>
        checkProviderSpecific pre opts =
          Inr (if 1 < system_prompt_count pre then
                 [if squash_enabled pre then squash_on_finding (system_prompt_count pre)
                  else squash_off_finding (system_prompt_count pre)]
               else []))
   \<and> severity (squash_on_finding n) = ''info''
   \<and> severity (squash_off_finding n) = ''warning''"
proof (intro conjI impI)
  assume "provider opts = None \<or>
    (\<exists>s. provider opts = Some s \<and> s \<noteq> ''anthropic'' \<and> s \<noteq> ''openai'' \<and> s \<noteq> ''google'')"
  then show "checkProviderSpecific pre opts = Inr []"
    by (rule checkProviderSpecific_other)
next
  assume "provider opts = Some ''anthropic''"
  then show "checkProviderSpecific pre opts =
          Inr (if 1 < system_prompt_count pre then
                 [if squash_enabled pre then squash_on_finding (system_prompt_count pre)
                  else squash_off_finding (system_prompt_count pre)]
               else [])"
    by (rule checkProviderSpecific_anthropic)
next
  show "severity (squash_on_finding n) = ''info''"
    by (simp add: squash_on_finding_def)
  show "severity (squash_off_finding n) = ''warning''"
    by (simp add: squash_off_finding_def)
qed

theorem checkProviderSpecific_dispatch_witness:
  "checkProviderSpecific (Some (scenario_c True)) (provider_options ''anthropic'') =
     Inr [squash_on_finding 2]
   \<and> checkProviderSpecific (Some (scenario_c False)) (provider_options ''anthropic'') =
     Inr [squash_off_finding 2]
   \<and> checkProviderSpecific (Some scenario_c_flat) (provider_options ''anthropic'') =
     Inr [squash_off_finding 2]
   \<and> system_prompt_count (Some single_system) = 1
   \<and> checkProviderSpecific (Some single_system) (provider_options ''anthropic'') = Inr []
   \<and> checkProviderSpecific (Some (scenario_c False)) (provider_options ''mistral'') = Inr []
   \<and> checkProviderSpecific (Some (scenario_c False)) (provider_options ''constructor'') = Inr []
   \<and> checkProviderSpecific (Some (scenario_c False)) no_options = Inr []"
proof -
  have a: "provider (provider_options ''anthropic'') = Some ''anthropic''"
    and m: "\<exists>s. provider (provider_options ''mistral'') = Some s \<and> s \<noteq> ''anthropic''
        \<and> s \<noteq> ''openai'' \<and> s \<noteq> ''google''"
    and k: "\<exists>s. provider (provider_options ''constructor'') = Some s \<and> s \<noteq> ''anthropic''
        \<and> s \<noteq> ''openai'' \<and> s \<noteq> ''google''"
    and n: "provider no_options = None"
    by (simp_all add: provider_options_def no_options_def)
  have c: "system_prompt_count (Some (scenario_c True)) = 2"
    "system_prompt_count (Some (scenario_c False)) = 2"
    "system_prompt_count (Some scenario_c_flat) = 2"
    "system_prompt_count (Some single_system) = 1"
    by code_simp+
  have run: "map severity (case checkProviderSpecific (Some (scenario_c True)) (provider_options ''anthropic'')
                   of Inl e \<Rightarrow> [] | Inr fs \<Rightarrow> fs) = [''info'']"
    "map severity (case checkProviderSpecific (Some (scenario_c False)) (provider_options ''anthropic'')
                   of Inl e \<Rightarrow> [] | Inr fs \<Rightarrow> fs) = [''warning'']"
    "checkProviderSpecific (Some single_system) (provider_options ''anthropic'') = Inr []"
    "map severity (case checkProviderSpecific (Some scenario_c_flat) (provider_options ''anthropic'')
                   of Inl e \<Rightarrow> [] | Inr fs \<Rightarrow> fs) = [''warning'']"
    by code_simp+
  have s: "squash_enabled (Some (scenario_c True))" "\<not> squash_enabled (Some (scenario_c False))"
    "\<not> squash_enabled (Some scenario_c_flat)"
    by (simp_all add: squash_enabled_def scenario_c_def scenario_c_flat_def)
  show ?thesis
    using checkProviderSpecific_dispatch [of "provider_options ''anthropic''" "Some (scenario_c True)"]
      checkProviderSpecific_dispatch [of "provider_options ''anthropic''" "Some (scenario_c False)"]
      checkProviderSpecific_dispatch [of "provider_options ''anthropic''" "Some scenario_c_flat"]
      checkProviderSpecific_dispatch [of "provider_options ''anthropic''" "Some single_system"]
      checkProviderSpecific_dispatch [of "provider_options ''mistral''" "Some (scenario_c False)"]
      checkProviderSpecific_dispatch [of "provider_options ''constructor''" "Some (scenario_c False)"]
      checkProviderSpecific_dispatch [of no_options "Some (scenario_c False)"]
      a m k n c s run
    by simp
qed

subsection \<open>C9: the two stable-prefix estimates\<close>

text \<open>
  C9. For every preset with \<open>prompts\<close> and \<open>prompt_order\<close> present and every tokenizer,
  \<open>getStablePrefixTokens\<close> returns the estimate that \<open>checkTokenThresholds\<close> computes on the
  same inputs, and both are the tokenizer applied to the stable prefix: the contents of
  the records of the effective ordered sequence (the enabled ones) that are not volatile
  and whose prompt entry has a non-empty content, in order, joined by newlines.
\<close>

theorem stable_prefix_estimates_agree:
  assumes "prompts p = Some ps" and "prompt_order p = Some po"
  shows "getStablePrefixTokens p tok = Inr (thresholds_estimate ps po tok)
         \<and> thresholds_estimate ps po tok = tok (stable_prefix ps po)"
  using assms by (simp add: getStablePrefixTokens_eq thresholds_estimate_eq)

theorem stable_prefix_estimates_agree_witness:
  "getStablePrefixTokens prefix_preset defaultTokenizer =
     Inr (thresholds_estimate prefix_prompts prefix_order defaultTokenizer)
   \<and> thresholds_estimate prefix_prompts prefix_order defaultTokenizer = 11
   \<and> stable_prefix prefix_prompts prefix_order =
       ''You are a helpful assistant.'' @ newline @ ''A calm guide.''
   \<and> map entry_identifier (effective_records prefix_order) =
       [''main'', ''stamp'', ''blank'', ''bare'', ''missing'', ''toString'', ''chatHistory'',
        ''persona'']
   \<and> getStablePrefixTokens prefix_flat (\<lambda>s. int (length s)) =
     Inr (thresholds_estimate prefix_prompts prefix_flat_order (\<lambda>s. int (length s)))
   \<and> thresholds_estimate prefix_prompts prefix_flat_order (\<lambda>s. int (length s)) = 42
   \<and> stable_prefix prefix_prompts prefix_flat_order =
       ''A calm guide.'' @ newline @ ''You are a helpful assistant.''"
proof -
  have "prompts prefix_preset = Some prefix_prompts"
    and "prompt_order prefix_preset = Some prefix_order"
    and "prompts prefix_flat = Some prefix_prompts"
    and "prompt_order prefix_flat = Some prefix_flat_order"
    by (simp_all add: prefix_preset_def prefix_flat_def)
  moreover have "getStablePrefixTokens prefix_preset defaultTokenizer = Inr 11"
    "thresholds_estimate prefix_prompts prefix_order defaultTokenizer = 11"
    "getStablePrefixTokens prefix_flat (\<lambda>s. int (length s)) = Inr 42"
    by code_simp+
  moreover have "stable_prefix prefix_prompts prefix_order =
       ''You are a helpful assistant.'' @ newline @ ''A calm guide.''"
    by code_simp
  moreover have "stable_prefix prefix_prompts prefix_flat_order =
       ''A calm guide.'' @ newline @ ''You are a helpful assistant.''"
    by code_simp
  moreover have "map entry_identifier (effective_records prefix_order) =
       [''main'', ''stamp'', ''blank'', ''bare'', ''missing'', ''toString'', ''chatHistory'',
        ''persona'']"
    by code_simp
  moreover have "defaultTokenizer (''You are a helpful assistant.'' @ newline @ ''A calm guide.'') = 11"
    by code_simp
  moreover have "int (length (''A calm guide.'' @ newline @ ''You are a helpful assistant.'')) = 42"
    by (simp add: newline_def)
  ultimately show ?thesis
    using stable_prefix_estimates_agree [of prefix_preset prefix_prompts prefix_order
        defaultTokenizer]
      stable_prefix_estimates_agree [of prefix_flat prefix_prompts prefix_flat_order
        "\<lambda>s. int (length s)"]
    by simp
qed

subsection \<open>C10: alignment of an empty stable prefix\<close>





end
